theory Spec2Isabelle
  imports Main "HOL-Library.Word"
begin

section \<open>JavaScript values used by the network model\<close>

text \<open>
  A JavaScript string is a sequence of 16-bit code units; \<open>length\<close> counts code units,
  as \<open>String.prototype.length\<close> and \<open>substring\<close> do. Literals of the source are written
  \<open>js ''...''\<close>.
\<close>

type_synonym code_unit = "16 word"
type_synonym jsstring = "code_unit list"

definition js :: "string \<Rightarrow> jsstring" where
  "js s = map of_char s"

text \<open>The class \<open>\s\<close> of a JavaScript regular expression (white space and line terminators).\<close>

definition isSpace :: "code_unit \<Rightarrow> bool" where
  "isSpace c = (let k = unat c in
     k = 0x09 \<or> k = 0x0A \<or> k = 0x0B \<or> k = 0x0C \<or> k = 0x0D \<or> k = 0x20 \<or> k = 0xA0
     \<or> k = 0x1680 \<or> (0x2000 \<le> k \<and> k \<le> 0x200A) \<or> k = 0x2028 \<or> k = 0x2029
     \<or> k = 0x202F \<or> k = 0x205F \<or> k = 0x3000 \<or> k = 0xFEFF)"


text \<open>The class \<open>[a-zA-Z0-9]\<close>.\<close>

definition isAlnum :: "code_unit \<Rightarrow> bool" where
  "isAlnum c = (let k = unat c in
     (97 \<le> k \<and> k \<le> 122) \<or> (65 \<le> k \<and> k \<le> 90) \<or> (48 \<le> k \<and> k \<le> 57))"

text \<open>\<open>a || b\<close> on strings: the empty string is the only falsy string.\<close>

definition orElse :: "jsstring \<Rightarrow> jsstring \<Rightarrow> jsstring" where
  "orElse a b = (if a = [] then b else a)"

text \<open>
  The numbers that hold a port: \<open>NaN\<close>, an integer-valued number, or an infinity. These
  are the values the runtime's \<open>parseInt\<close> can return; \<open>parseInt\<close> itself, which rounds
  a long run of digits to a double, is a parameter of \<open>edit\<close>. \<open>!p\<close> holds of \<open>NaN\<close> and of
  zero.
\<close>

datatype jsnumber = NaN | Num int | PosInfinity | NegInfinity

definition falsyNumber :: "jsnumber \<Rightarrow> bool" where
  "falsyNumber p = (p = NaN \<or> p = Num 0)"

fun decimal :: "nat \<Rightarrow> jsstring" where
  "decimal n = (if n < 10 then [of_nat (48 + n)]
                else decimal (n div 10) @ [of_nat (48 + n mod 10)])"

definition numberToString :: "int \<Rightarrow> jsstring" where
  "numberToString i = (if i < 0 then 45 # decimal (nat (- i)) else decimal (nat i))"

section \<open>Messages, channels and the connection handle\<close>

datatype MsgType = ERROR | MESSAGE

record msg =
  type :: MsgType
  msg_text :: jsstring

datatype ChanType = LOBBY | CHANNEL | QUERY | SPECIAL

text \<open>
  Modelled from the spec: the channel entity (\<open>./chan\<close>) is not among the sources. It has
  a kind, a name and an optional join key; a message pushed to it is delivered to it,
  which the model records by appending the message to \<open>messages\<close>. The client and the
  flag that the network passes along with the message are the channel's to use; what it
  does with them is not modelled.
\<close>

record chan =
  name :: jsstring
  type :: ChanType
  key :: "jsstring option"
  messages :: "msg list"

definition pushMessage :: "chan \<Rightarrow> msg \<Rightarrow> chan" where
  "pushMessage c m = c\<lparr>messages := messages c @ [m]\<rparr>"

text \<open>
  The handle of the external protocol engine, as far as the network reads and writes it:
  \<open>irc.connection.transport.socket\<close> for the status, \<open>irc.options.*\<close> and \<open>irc.user.*\<close>
  (flattened to \<open>options_*\<close> and \<open>user_*\<close>), whether the \<open>setname\<close> capability is enabled,
  and the calls made on the engine, in order.
\<close>

record status =
  connected :: bool
  secure :: bool

record socket =
  remoteAddress :: jsstring
  encrypted :: bool
  authorized :: bool

record transport =
  socket :: "socket option"
  isConnected :: bool

record connection =
  transport :: "transport option"
  connected :: bool

datatype irc_call =
    ChangeNick jsstring
  | Raw jsstring jsstring
  | Quit jsstring

record irc =
  connection :: "connection option"
  options_nick :: jsstring
  options_host :: jsstring
  options_port :: jsnumber
  options_password :: jsstring
  options_gecos :: jsstring
  options_tls :: bool
  options_rejectUnauthorized :: bool
  options_username :: jsstring
  user_nick :: jsstring
  user_gecos :: jsstring
  user_username :: jsstring
  cap_setname :: bool
  calls :: "irc_call list"

section \<open>Administrator configuration and the STS policy of a host\<close>

text \<open>
  \<open>Helper.config\<close> is read-only input of the network code; \<open>defaults_*\<close> are the fields of
  \<open>Helper.config.defaults\<close>, and \<open>getDefaultNick\<close> is the string the call
  \<open>Helper.getDefaultNick()\<close> returns.
\<close>

record helper =
  lockNetwork :: bool
  public :: bool
  defaults_host :: jsstring
  defaults_port :: jsnumber
  defaults_tls :: bool
  defaults_rejectUnauthorized :: bool
  leaveMessage :: jsstring
  useHexIp :: bool
  getDefaultNick :: jsstring

text \<open>
  Modelled from the spec: the STS policy store (\<open>../plugins/sts\<close>) is not among the sources.
  A policy has a target port, a validity duration and an absolute expiry instant. The store
  maps a host to its policy; \<open>get\<close> ignores expired entries (a policy whose expiry is in the
  past is treated as absent); \<open>refreshExpiration\<close> recomputes the expiry of an existing,
  unexpired policy from now with its original duration and does nothing otherwise.
\<close>

record sts_policy =
  port :: int
  duration :: int
  expires :: int

type_synonym sts_store = "jsstring \<Rightarrow> sts_policy option"

definition sts_get :: "int \<Rightarrow> sts_store \<Rightarrow> jsstring \<Rightarrow> sts_policy option" where
  "sts_get now store h =
     (case store h of
        None \<Rightarrow> None
      | Some p \<Rightarrow> if expires p < now then None else Some p)"

definition sts_refreshExpiration :: "int \<Rightarrow> sts_store \<Rightarrow> jsstring \<Rightarrow> sts_store" where
  "sts_refreshExpiration now store h =
     (case sts_get now store h of
        None \<Rightarrow> store
      | Some p \<Rightarrow> store(h \<mapsto> p\<lparr>expires := now + duration p\<rparr>))"

section \<open>User sessions\<close>

text \<open>
  Modelled from the spec: the user session (\<open>./client\<close>) is not among the sources. The
  manager constructs it from an account name and a deserialized configuration; the network
  code emits events to it and asks it to save.
\<close>

record 'c client =
  name :: jsstring
  config :: 'c


section \<open>The network\<close>

text \<open>The fields a client submits to \<open>edit\<close>; the form sends strings and booleans.\<close>

record edit_args =
  nick :: jsstring
  host :: jsstring
  name :: jsstring
  port :: jsstring
  tls :: bool
  rejectUnauthorized :: bool
  password :: jsstring
  username :: jsstring
  realname :: jsstring
  commands :: jsstring

record server_options =
  CHANTYPES :: "jsstring list"
  PREFIX :: "jsstring list"
  NETWORK :: jsstring

text \<open>A value of a property that the network code does not interpret.\<close>

datatype jsvalue =
    Undefined
  | Null
  | JBoolean bool
  | JNumber jsnumber
  | JString jsstring
  | JArray "jsvalue list"
  | JObject "(jsstring \<times> jsvalue) list"

text \<open>
  The own properties of a \<open>Network\<close> object. \<open>irc = None\<close> is \<open>null\<close>;
  \<open>highlightRegex\<close> is the source of the pattern \<open>setNick\<close> builds, absent until the
  first \<open>setNick\<close>. The constructor's \<open>_.defaults(this, attr, ...)\<close> copies every
  property of \<open>attr\<close> that is undefined on \<open>this\<close> or inherited from \<open>Object.prototype\<close>,
  so a network also owns whatever other properties its \<open>attr\<close> carried: \<open>otherProps\<close>,
  by name, in order.
\<close>

record network =
  uuid :: jsstring
  name :: jsstring
  nick :: jsstring
  host :: jsstring
  port :: jsnumber
  tls :: bool
  userDisconnected :: bool
  rejectUnauthorized :: bool
  password :: jsstring
  awayMessage :: jsstring
  commands :: "jsstring list"
  username :: jsstring
  realname :: jsstring
  channels :: "chan list"
  irc :: "irc option"
  serverOptions :: server_options
  chanCache :: "jsstring list"
  ignoreList :: "jsstring list"
  keepNick :: "jsstring option"
  highlightRegex :: "jsstring option"
  otherProps :: "(jsstring \<times> jsvalue) list"

datatype error = TypeError | Error jsstring

subsection \<open>validate\<close>

definition nickDisallowed :: "code_unit \<Rightarrow> bool" where
  "nickDisallowed c = (c = 0 \<or> isSpace c \<or> c = 58 \<or> c = 33 \<or> c = 64)"

definition cleanNick :: "jsstring \<Rightarrow> jsstring" where
  "cleanNick str = take 100 (map (\<lambda>c. if nickDisallowed c then 95 else c) str)"

definition cleanString :: "jsstring \<Rightarrow> jsstring" where
  "cleanString str = take 300 (filter (\<lambda>c. c \<noteq> 0 \<and> c \<noteq> 13 \<and> c \<noteq> 10) str)"

text \<open>\<open>_.escapeRegExp\<close>: each of \<open>^ $ \ . * + ? ( ) [ ] { } |\<close> gets a backslash in front.\<close>

definition regExpChar :: "code_unit \<Rightarrow> bool" where
  "regExpChar c = (c \<in> set (92 # js ''^$.*+?()[]{}|''))"

definition escapeRegExp :: "jsstring \<Rightarrow> jsstring" where
  "escapeRegExp s = concat (map (\<lambda>c. if regExpChar c then [92, c] else [c]) s)"

definition setNick :: "jsstring \<Rightarrow> network \<Rightarrow> network" where
  "setNick v n =
     (let n1 = n\<lparr>nick := v,
                 highlightRegex := Some (js ''(?:^|[^a-z0-9]|'' @ [3] @ js ''[0-9]{1,2})''
                                         @ escapeRegExp v @ js ''(?:[^a-z0-9]|$)'')\<rparr>
      in if keepNick n1 = Some v then n1\<lparr>keepNick := None\<rparr> else n1)"

text \<open>
  \<open>this.channels[0].pushMessage(client, msg, true)\<close>: a \<open>TypeError\<close> when the list is empty.
  A thrown error carries the network as it is when thrown.
\<close>

definition lobbyPush :: "network \<Rightarrow> msg \<Rightarrow> (error \<times> network) + network" where
  "lobbyPush n m =
     (case channels n of
        [] \<Rightarrow> Inl (TypeError, n)
      | c # cs \<Rightarrow> Inr (n\<lparr>channels := pushMessage c m # cs\<rparr>))"

definition returning :: "bool \<Rightarrow> (error \<times> network) + network
    \<Rightarrow> (error \<times> network) + (bool \<times> network)" where
  "returning b r = (case r of Inl e \<Rightarrow> Inl e | Inr n \<Rightarrow> Inr (b, n))"

text \<open>Lines 72 to 87: the in-place normalisation of the fields.\<close>

definition validate_fields :: "(jsstring \<Rightarrow> jsstring) \<Rightarrow> helper \<Rightarrow> network \<Rightarrow> network" where
  "validate_fields toLowerCase cfg n =
     (let n1 = setNick (cleanNick (orElse (nick n) (getDefaultNick cfg))) n;
          n2 = (if username n1 = []
                then n1\<lparr>username := filter isAlnum (nick n1)\<rparr> else n1);
          n3 = n2\<lparr>username := orElse (cleanString (username n2)) (js ''thelounge''),
                  realname := orElse (cleanString (realname n2)) (js ''The Lounge User''),
                  password := cleanString (password n2),
                  host := toLowerCase (cleanString (host n2)),
                  name := cleanString (name n2)\<rparr>
      in if falsyNumber (port n3)
         then n3\<lparr>port := Num (if tls n3 then 6697 else 6667)\<rparr> else n3)"

text \<open>Lines 128 to 145: the STS policy of the host; \<open>sts\<close> is \<open>STSPolicies.get\<close>.\<close>

definition stsNotice :: "jsstring \<Rightarrow> sts_policy \<Rightarrow> msg" where
  "stsNotice h stsPolicy = \<lparr>msg.type = ERROR,
     msg_text = h @ js '' has an active strict transport security policy, will connect to port ''
                @ numberToString (sts_policy.port stsPolicy)
                @ js '' over a secure connection.''\<rparr>"

definition validate_sts :: "(jsstring \<Rightarrow> sts_policy option) \<Rightarrow> network
    \<Rightarrow> (error \<times> network) + (bool \<times> network)" where
  "validate_sts sts n =
     (case sts (host n) of
        None \<Rightarrow> Inr (True, n)
      | Some stsPolicy \<Rightarrow>
          if \<not> tls n
          then (case lobbyPush n (stsNotice (host n) stsPolicy) of
                  Inl e \<Rightarrow> Inl e
                | Inr n1 \<Rightarrow> Inr (True, n1\<lparr>port := Num (sts_policy.port stsPolicy),
                                           tls := True, rejectUnauthorized := True\<rparr>))
          else Inr (True, n))"

text \<open>Lines 115 to 126: an empty host is rejected.\<close>

definition validate_host :: "(jsstring \<Rightarrow> sts_policy option) \<Rightarrow> network
    \<Rightarrow> (error \<times> network) + (bool \<times> network)" where
  "validate_host sts n =
     (if length (host n) = 0
      then returning False (lobbyPush n
             \<lparr>msg.type = ERROR, msg_text = js ''You must specify a hostname to connect.''\<rparr>)
      else validate_sts sts n)"

text \<open>Lines 89 to 113: a deployment locked to one network.\<close>

definition lockRejects :: "helper \<Rightarrow> network \<Rightarrow> bool" where
  "lockRejects cfg n =
     (\<not> public cfg \<and> host n \<noteq> [] \<and> length (host n) > 0 \<and> host n \<noteq> defaults_host cfg)"

definition validate_lock :: "helper \<Rightarrow> (jsstring \<Rightarrow> sts_policy option) \<Rightarrow> network
    \<Rightarrow> (error \<times> network) + (bool \<times> network)" where
  "validate_lock cfg sts n =
     (if lockNetwork cfg
      then (if lockRejects cfg n
            then returning False (lobbyPush n
                   \<lparr>msg.type = ERROR, msg_text = js ''Hostname you specified is not allowed.''\<rparr>)
            else validate_host sts
                   (n\<lparr>host := defaults_host cfg, port := defaults_port cfg,
                      tls := defaults_tls cfg,
                      rejectUnauthorized := defaults_rejectUnauthorized cfg\<rparr>))
      else validate_host sts n)"


text \<open>
  \<open>Network.prototype.validate\<close>. \<open>toLowerCase\<close> is the runtime's
  \<open>String.prototype.toLowerCase\<close>; the result is the returned boolean with the network as
  validate leaves it.
\<close>

definition validate :: "(jsstring \<Rightarrow> jsstring) \<Rightarrow> helper \<Rightarrow> (jsstring \<Rightarrow> sts_policy option)
    \<Rightarrow> network \<Rightarrow> (error \<times> network) + (bool \<times> network)" where
  "validate toLowerCase cfg sts n = validate_lock cfg sts (validate_fields toLowerCase cfg n)"

subsection \<open>edit\<close>


fun split :: "code_unit \<Rightarrow> jsstring \<Rightarrow> jsstring list" where
  "split sep [] = [[]]"
| "split sep (c # r) =
     (if c = sep then [] # split sep r
      else (case split sep r of
              [] \<Rightarrow> [[c]]
            | x # xs \<Rightarrow> (c # x) # xs))"




subsection \<open>getFilteredClone and getNetworkStatus\<close>

definition getNetworkStatus :: "network \<Rightarrow> status" where
  "getNetworkStatus n =
     (case irc n of
        None \<Rightarrow> \<lparr>status.connected = False, secure = False\<rparr>
      | Some i \<Rightarrow>
          (case connection i of
             None \<Rightarrow> \<lparr>status.connected = False, secure = False\<rparr>
           | Some c \<Rightarrow>
               (case transport c of
                  None \<Rightarrow> \<lparr>status.connected = False, secure = False\<rparr>
                | Some t \<Rightarrow>
                    (case socket t of
                       None \<Rightarrow> \<lparr>status.connected = False, secure = False\<rparr>
                     | Some so \<Rightarrow>
                         (let isLocalhost = (remoteAddress so = js ''127.0.0.1'');
                              isAuthorized = (encrypted so \<and> authorized so)
                          in \<lparr>status.connected = isConnected t,
                              secure = (isAuthorized \<or> isLocalhost)\<rparr>)))))"

text \<open>
  The value of a property of a network or of the filtered object. \<open>'cc\<close> is what the
  channel's own \<open>getFilteredClone\<close> returns.
\<close>

datatype 'cc val =
    Str jsstring
  | Number jsnumber
  | Boolean bool
  | StrList "jsstring list"
  | StrOpt "jsstring option"
  | ServerOptions server_options
  | Handle "irc option"
  | Chans "chan list"
  | ChanClones "'cc list"
  | StatusVal status
  | Other jsvalue

text \<open>
  \<open>Object.keys(this)\<close>: the properties the constructor assigns, \<open>highlightRegex\<close> once
  \<open>setNick\<close> has run, and the other properties the network owns. The result of
  \<open>getFilteredClone\<close> is a map from keys, so the order of the keys does not show in it.
\<close>

definition namedKeys :: "jsstring list" where
  "namedKeys =
     map js [''uuid'', ''name'', ''nick'', ''host'', ''port'', ''tls'', ''userDisconnected'',
      ''rejectUnauthorized'', ''password'', ''awayMessage'', ''commands'', ''username'',
      ''realname'', ''channels'', ''irc'', ''serverOptions'', ''chanCache'', ''ignoreList'',
      ''keepNick'']"

definition ownKeys :: "network \<Rightarrow> jsstring list" where
  "ownKeys n =
     namedKeys
     @ (if highlightRegex n = None then [] else [js ''highlightRegex''])
     @ filter (\<lambda>k. k \<notin> set namedKeys \<and> k \<noteq> js ''highlightRegex'')
         (map fst (otherProps n))"

text \<open>\<open>this[prop]\<close> for an own key.\<close>

definition getProp :: "network \<Rightarrow> jsstring \<Rightarrow> 'cc val" where
  "getProp n k =
     (if k = js ''uuid'' then Str (uuid n)
      else if k = js ''name'' then Str (name n)
      else if k = js ''nick'' then Str (nick n)
      else if k = js ''host'' then Str (host n)
      else if k = js ''port'' then Number (port n)
      else if k = js ''tls'' then Boolean (tls n)
      else if k = js ''userDisconnected'' then Boolean (userDisconnected n)
      else if k = js ''rejectUnauthorized'' then Boolean (rejectUnauthorized n)
      else if k = js ''password'' then Str (password n)
      else if k = js ''awayMessage'' then Str (awayMessage n)
      else if k = js ''commands'' then StrList (commands n)
      else if k = js ''username'' then Str (username n)
      else if k = js ''realname'' then Str (realname n)
      else if k = js ''channels'' then Chans (channels n)
      else if k = js ''irc'' then Handle (irc n)
      else if k = js ''serverOptions'' then ServerOptions (serverOptions n)
      else if k = js ''chanCache'' then StrList (chanCache n)
      else if k = js ''ignoreList'' then StrList (ignoreList n)
      else if k = js ''keepNick'' then StrOpt (keepNick n)
      else if k = js ''highlightRegex'' then StrOpt (highlightRegex n)
      else (case map_of (otherProps n) k of
              None \<Rightarrow> Other Undefined
            | Some v \<Rightarrow> Other v))"

text \<open>
  \<open>fieldsForClient[prop]\<close> as a condition. \<open>fieldsForClient\<close> is an object literal, so the
  lookup also finds the properties it inherits from \<open>Object.prototype\<close>, all of them
  truthy.
\<close>

definition objectPrototypeKeys :: "jsstring list" where
  "objectPrototypeKeys =
     map js [''constructor'', ''__defineGetter__'', ''__defineSetter__'', ''hasOwnProperty'',
      ''__lookupGetter__'', ''__lookupSetter__'', ''isPrototypeOf'', ''propertyIsEnumerable'',
      ''toString'', ''valueOf'', ''__proto__'', ''toLocaleString'']"

definition fieldsForClient :: "jsstring \<Rightarrow> bool" where
  "fieldsForClient k =
     (k = js ''uuid'' \<or> k = js ''name'' \<or> k = js ''nick'' \<or> k = js ''serverOptions''
      \<or> k \<in> set objectPrototypeKeys)"

text \<open>
  \<open>obj[prop] = value\<close> on a plain object: assigning to \<open>__proto__\<close> sets the prototype and
  adds no property.
\<close>

definition assignProp :: "(jsstring \<rightharpoonup> 'v) \<Rightarrow> jsstring \<Rightarrow> 'v \<Rightarrow> (jsstring \<rightharpoonup> 'v)" where
  "assignProp obj prop v = (if prop = js ''__proto__'' then obj else obj(prop \<mapsto> v))"

definition getFilteredClone :: "('a \<Rightarrow> 'b \<Rightarrow> chan \<Rightarrow> 'cc) \<Rightarrow> 'a \<Rightarrow> 'b \<Rightarrow> network
    \<Rightarrow> (jsstring \<rightharpoonup> 'cc val)" where
  "getFilteredClone chanFilteredClone lastActiveChannel lastMessage n =
     (let filteredNetwork =
        foldl (\<lambda>newNetwork prop.
                 if prop = js ''channels''
                 then assignProp newNetwork prop (ChanClones
                        (map (chanFilteredClone lastActiveChannel lastMessage) (channels n)))
                 else if fieldsForClient prop
                 then assignProp newNetwork prop (getProp n prop)
                 else newNetwork)
              Map.empty (ownKeys n)
      in assignProp filteredNetwork (js ''status'') (StatusVal (getNetworkStatus n)))"

subsection \<open>addChannel and getChannel\<close>

definition isChannelOrQuery :: "chan \<Rightarrow> bool" where
  "isChannelOrQuery c = (chan.type c = CHANNEL \<or> chan.type c = QUERY)"

text \<open>
  The loop of lines 358 to 369, from index \<open>i\<close>: the first index at which the scan
  stops, or the length of the list. \<open>localeCompare\<close> is the runtime's comparison as the
  source calls it; it returns a negative number, zero or a positive number.
\<close>

definition stopsAt :: "(jsstring \<Rightarrow> jsstring \<Rightarrow> int) \<Rightarrow> chan \<Rightarrow> chan \<Rightarrow> bool" where
  "stopsAt localeCompare newChan compareChan =
     (localeCompare (chan.name newChan) (chan.name compareChan) \<le> 0
      \<or> (chan.type compareChan \<noteq> CHANNEL \<and> chan.type compareChan \<noteq> QUERY))"

function scanIndex :: "(jsstring \<Rightarrow> jsstring \<Rightarrow> int) \<Rightarrow> chan \<Rightarrow> chan list \<Rightarrow> nat \<Rightarrow> nat" where
  "scanIndex localeCompare newChan cs i =
     (if i < length cs
      then (if stopsAt localeCompare newChan (cs ! i) then i
            else scanIndex localeCompare newChan cs (i + 1))
      else length cs)"
  by pat_completeness auto
termination
  by (relation "measure (\<lambda>(f, c, cs, i). length cs - i)") auto

definition addChannel :: "(jsstring \<Rightarrow> jsstring \<Rightarrow> int) \<Rightarrow> chan \<Rightarrow> network \<Rightarrow> nat \<times> network" where
  "addChannel localeCompare newChan n =
     (let index = (if chan.type newChan = CHANNEL \<or> chan.type newChan = QUERY
                   then scanIndex localeCompare newChan (channels n) 1
                   else length (channels n))
      in (index, n\<lparr>channels := take index (channels n) @ [newChan] @ drop index (channels n)\<rparr>))"

text \<open>
  The orders a registry can be in. \<open>subsequenceSorted\<close>: the channels and queries after
  the lobby, taken among themselves, are sorted by the comparison. \<open>registryOrdered\<close>:
  after the lobby come channels and queries only, sorted, and then entities of other kinds
  only. The comparison is a total preorder when any two names are comparable and the
  comparison is transitive.
\<close>

definition leName :: "(jsstring \<Rightarrow> jsstring \<Rightarrow> int) \<Rightarrow> chan \<Rightarrow> chan \<Rightarrow> bool" where
  "leName localeCompare a b = (localeCompare (chan.name a) (chan.name b) \<le> 0)"

definition totalPreorder :: "(jsstring \<Rightarrow> jsstring \<Rightarrow> int) \<Rightarrow> bool" where
  "totalPreorder localeCompare =
     ((\<forall>a b. 0 < localeCompare a b \<longrightarrow> localeCompare b a \<le> 0)
      \<and> (\<forall>a b c. localeCompare a b \<le> 0 \<and> localeCompare b c \<le> 0 \<longrightarrow> localeCompare a c \<le> 0))"

definition subsequenceSorted :: "(jsstring \<Rightarrow> jsstring \<Rightarrow> int) \<Rightarrow> chan list \<Rightarrow> bool" where
  "subsequenceSorted localeCompare cs =
     sorted_wrt (leName localeCompare) (filter isChannelOrQuery (tl cs))"

definition registryOrdered :: "(jsstring \<Rightarrow> jsstring \<Rightarrow> int) \<Rightarrow> chan list \<Rightarrow> bool" where
  "registryOrdered localeCompare cs =
     (sorted_wrt (leName localeCompare) (takeWhile isChannelOrQuery (tl cs))
      \<and> list_all (\<lambda>c. \<not> isChannelOrQuery c) (dropWhile isChannelOrQuery (tl cs)))"

text \<open>\<open>_.find(collection, predicate)\<close> with the predicate given the element and its index.\<close>

fun findIndexed :: "('a \<Rightarrow> nat \<Rightarrow> bool) \<Rightarrow> 'a list \<Rightarrow> nat \<Rightarrow> 'a option" where
  "findIndexed p [] i = None"
| "findIndexed p (x # xs) i = (if p x i then Some x else findIndexed p xs (Suc i))"

definition getChannel :: "(jsstring \<Rightarrow> jsstring) \<Rightarrow> network \<Rightarrow> jsstring \<Rightarrow> chan option" where
  "getChannel toLowerCase n nm =
     (let nm' = toLowerCase nm
      in findIndexed (\<lambda>that i. i > 0 \<and> toLowerCase (chan.name that) = nm') (channels n) 0)"

subsection \<open>quit\<close>

text \<open>
  \<open>Network.prototype.quit\<close>, on the network and the policy store. \<open>quitMessage = None\<close> is a
  call without a message; \<open>now\<close> is the time of the call.
\<close>

definition quit :: "helper \<Rightarrow> int \<Rightarrow> jsstring option \<Rightarrow> network \<times> sts_store
    \<Rightarrow> network \<times> sts_store" where
  "quit cfg now quitMessage st =
     (case irc (fst st) of
        None \<Rightarrow> st
      | Some i \<Rightarrow>
          (fst st\<lparr>irc := Some (i\<lparr>calls := calls i
                     @ [Quit (orElse (case quitMessage of None \<Rightarrow> [] | Some m \<Rightarrow> m)
                                     (leaveMessage cfg))]\<rparr>)\<rparr>,
           sts_refreshExpiration now (snd st) (host (fst st))))"

section \<open>The client manager\<close>

text \<open>
  Modelled from the spec: the persistence collaborator (a MySQL pool) is not among the
  sources. The \<open>users\<close> table holds rows of an account name and a serialized configuration,
  with a uniqueness constraint on the name: creating a record under an existing name is a
  duplicate error and leaves the table as it is. The driver runs a query and calls its
  callback on a later turn of the event loop, after the function that issued the query has
  returned: \<open>pending\<close> holds the queries issued and not yet answered, \<open>runPending\<close> is the
  turn that answers the oldest one and runs its callback. \<open>logged\<close> counts the errors the
  callbacks log.
\<close>

datatype query =
    SelectUser jsstring
  | InsertUser jsstring jsstring

record 'c manager =
  clients :: "'c client list"
  users :: "(jsstring \<times> jsstring) list"
  pending :: "query list"
  logged :: nat

text \<open>
  \<open>ClientManager.prototype.loadUser\<close>: the returned value is the variable \<open>client\<close> as it is
  when \<open>loadUser\<close> returns (\<open>None\<close> is \<open>undefined\<close>).
\<close>

definition loadUser :: "jsstring \<Rightarrow> 'c manager \<Rightarrow> 'c client option \<times> 'c manager" where
  "loadUser nm m =
     (case find (\<lambda>u. client.name u = nm) (clients m) of
        Some client \<Rightarrow> (Some client, m)
      | None \<Rightarrow> (None, m\<lparr>pending := pending m @ [SelectUser nm]\<rparr>))"

definition findClient :: "jsstring \<Rightarrow> 'c manager \<Rightarrow> 'c client option \<times> 'c manager" where
  "findClient nm m = loadUser nm m"

text \<open>
  \<open>path.basename\<close> (POSIX): trailing slashes are dropped, then the part after the last
  slash is taken.
\<close>

definition basename :: "jsstring \<Rightarrow> jsstring" where
  "basename p = rev (takeWhile (\<lambda>c. c \<noteq> 47) (dropWhile (\<lambda>c. c = 47) (rev p)))"

text \<open>
  \<open>ClientManager.prototype.addUser\<close>. \<open>stringify password log\<close> is
  \<open>JSON.stringify({password, log})\<close>. A thrown error is \<open>Inl\<close>.
\<close>

definition addUser :: "(jsstring \<Rightarrow> bool \<Rightarrow> jsstring) \<Rightarrow> jsstring \<Rightarrow> jsstring \<Rightarrow> bool
    \<Rightarrow> 'c manager \<Rightarrow> error + (bool \<times> 'c manager)" where
  "addUser stringify nm password' enableLog m =
     (if basename nm \<noteq> nm
      then Inl (Error (nm @ js '' is an invalid username.''))
      else Inr (True, m\<lparr>pending := pending m
                  @ [InsertUser nm (stringify (orElse password' []) enableLog)]\<rparr>))"

text \<open>
  One turn of the event loop: the oldest pending query is answered and its callback runs.
  The callback of \<open>loadUser\<close> constructs a session for each row and pushes it to the cache
  (\<open>parse\<close> is \<open>JSON.parse\<close>); the callback of \<open>addUser\<close> logs the error, if any.
\<close>

definition runPending :: "(jsstring \<Rightarrow> 'c) \<Rightarrow> 'c manager \<Rightarrow> 'c manager" where
  "runPending parse m =
     (case pending m of
        [] \<Rightarrow> m
      | q # qs \<Rightarrow>
          (case q of
             SelectUser nm \<Rightarrow>
               m\<lparr>pending := qs,
                 clients := clients m
                   @ map (\<lambda>row. \<lparr>client.name = fst row, config = parse (snd row)\<rparr>)
                       (filter (\<lambda>row. fst row = nm) (users m))\<rparr>
           | InsertUser nm blob \<Rightarrow>
               if nm \<in> fst ` set (users m)
               then m\<lparr>pending := qs, logged := logged m + 1\<rparr>
               else m\<lparr>pending := qs, users := users m @ [(nm, blob)]\<rparr>))"

section \<open>Reading a result\<close>

text \<open>
  The network as a call leaves it (also when it throws), and the boolean \<open>validate\<close>
  returns (\<open>None\<close> when it throws).
\<close>

definition networkAfter :: "(error \<times> network) + ('a \<times> network) \<Rightarrow> network" where
  "networkAfter r = (case r of Inl e \<Rightarrow> snd e | Inr x \<Rightarrow> snd x)"

definition returned :: "(error \<times> network) + (bool \<times> network) \<Rightarrow> bool option" where
  "returned r = (case r of Inl e \<Rightarrow> None | Inr x \<Rightarrow> Some (fst x))"

section \<open>Concrete inputs\<close>



definition lowerAscii :: "jsstring \<Rightarrow> jsstring" where
  "lowerAscii s = map (\<lambda>c. if 65 \<le> unat c \<and> unat c \<le> 90 then c + 32 else c) s"

fun compareUnits :: "nat list \<Rightarrow> nat list \<Rightarrow> int" where
  "compareUnits [] [] = 0"
| "compareUnits [] (b # bs) = - 1"
| "compareUnits (a # as) [] = 1"
| "compareUnits (a # as) (b # bs) =
     (if a < b then - 1 else if b < a then 1 else compareUnits as bs)"

definition compareAscii :: "jsstring \<Rightarrow> jsstring \<Rightarrow> int" where
  "compareAscii a b = compareUnits (map unat (lowerAscii a)) (map unat (lowerAscii b))"

definition openConfig :: helper where
  "openConfig = \<lparr>lockNetwork = False, public = False,
     defaults_host = js ''irc.example.org'', defaults_port = Num 6697,
     defaults_tls = True, defaults_rejectUnauthorized = False,
     leaveMessage = js ''bye'', useHexIp = False, getDefaultNick = js ''lounge-user''\<rparr>"

definition lockedConfig :: helper where
  "lockedConfig = openConfig\<lparr>lockNetwork := True\<rparr>"

definition lobbyOf :: "jsstring \<Rightarrow> chan" where
  "lobbyOf nm = \<lparr>chan.name = nm, type = LOBBY, key = None, messages = []\<rparr>"

definition channelNamed :: "string \<Rightarrow> chan" where
  "channelNamed nm = \<lparr>chan.name = js nm, type = CHANNEL, key = None, messages = []\<rparr>"

definition specialNamed :: "string \<Rightarrow> chan" where
  "specialNamed nm = \<lparr>chan.name = js nm, type = SPECIAL, key = None, messages = []\<rparr>"

definition exampleNetwork :: network where
  "exampleNetwork = \<lparr>uuid = js ''u-1'', name = js ''Example'', nick = js ''alice'',
     host = js ''irc.example.org'', port = Num 6667, tls = False, userDisconnected = False,
     rejectUnauthorized = False, password = js ''hunter2'', awayMessage = [],
     commands = [], username = js ''alice'', realname = js ''Alice'',
     channels = [lobbyOf (js ''Example'')], irc = None,
     serverOptions = \<lparr>CHANTYPES = [js ''#'', js ''&''],
                       PREFIX = [js ''!'', js ''@'', js ''%'', js ''+''], NETWORK = []\<rparr>,
     chanCache = [], ignoreList = [js ''*!*@spam.example''], keepNick = None,
     highlightRegex = None, otherProps = []\<rparr>"




definition registryExample :: network where
  "registryExample = exampleNetwork\<lparr>channels :=
     [lobbyOf (js ''Example''), channelNamed ''alpha'', channelNamed ''zulu'']\<rparr>"

definition boundaryExample :: network where
  "boundaryExample = exampleNetwork\<lparr>channels :=
     [lobbyOf (js ''Example''), channelNamed ''a'', specialNamed ''s'', channelNamed ''c'']\<rparr>"

definition loungeExample :: network where
  "loungeExample = exampleNetwork\<lparr>channels :=
     [lobbyOf (js ''Example''), channelNamed ''#Lounge'', channelNamed ''#lounge'']\<rparr>"

definition exampleIrc :: irc where
  "exampleIrc = \<lparr>connection = Some \<lparr>transport = Some \<lparr>socket = Some
        \<lparr>remoteAddress = js ''203.0.113.7'', encrypted = True, authorized = True\<rparr>,
        isConnected = True\<rparr>, connected = True\<rparr>,
     options_nick = js ''alice'', options_host = js ''irc.example.org'',
     options_port = Num 6667, options_password = js ''hunter2'', options_gecos = js ''Alice'',
     options_tls = False, options_rejectUnauthorized = False, options_username = js ''alice'',
     user_nick = js ''alice'', user_gecos = js ''Alice'', user_username = js ''alice'',
     cap_setname = True, calls = []\<rparr>"

definition bobStored :: "jsstring manager" where
  "bobStored = \<lparr>clients = [], users = [(js ''bob'', js ''{}'')], pending = [], logged = 0\<rparr>"

definition stringifyExample :: "jsstring \<Rightarrow> bool \<Rightarrow> jsstring" where
  "stringifyExample pw lg = js ''password='' @ pw @ (if lg then js '',log'' else [])"

definition leakyExample :: network where
  "leakyExample = exampleNetwork\<lparr>otherProps := [(js ''toString'', JString (js ''x''))]\<rparr>"

definition specialExample :: network where
  "specialExample = exampleNetwork\<lparr>channels :=
     [lobbyOf (js ''Example''), specialNamed ''Example'']\<rparr>"

definition noPolicy :: "jsstring \<Rightarrow> sts_policy option" where
  "noPolicy h = None"

definition examplePolicies :: sts_store where
  "examplePolicies = [js ''irc.example.org'' \<mapsto>
     \<lparr>sts_policy.port = 7000, duration = 3600, expires = 5000\<rparr>]"

section \<open>Properties of validate\<close>

lemma lobbyPush_cases:
  "(lobbyPush n m = Inl (TypeError, n) \<and> channels n = [])
   \<or> (\<exists>c cs. channels n = c # cs \<and> lobbyPush n m = Inr (n\<lparr>channels := pushMessage c m # cs\<rparr>))"
  by (cases "channels n") (simp_all add: lobbyPush_def)

lemma nick_lobbyPush: "nick (networkAfter (returning b (lobbyPush n m))) = nick n"
  using lobbyPush_cases [of n m] by (auto simp: networkAfter_def returning_def)

lemma lobbyPush_Inl: "lobbyPush n m = Inl e \<Longrightarrow> e = (TypeError, n) \<and> channels n = []"
  by (cases "channels n") (auto simp: lobbyPush_def)

lemma lobbyPush_Inr:
  "lobbyPush n m = Inr n' \<Longrightarrow> \<exists>c cs. channels n = c # cs \<and> n' = n\<lparr>channels := pushMessage c m # cs\<rparr>"
  by (cases "channels n") (auto simp: lobbyPush_def)

lemma nick_validate_sts: "nick (networkAfter (validate_sts sts n)) = nick n"
  by (auto simp: validate_sts_def networkAfter_def split: option.splits sum.splits
      dest!: lobbyPush_Inl lobbyPush_Inr)

lemma nick_validate_host: "nick (networkAfter (validate_host sts n)) = nick n"
  by (simp add: validate_host_def nick_lobbyPush nick_validate_sts)

lemma nick_validate_lock: "nick (networkAfter (validate_lock cfg sts n)) = nick n"
  by (simp add: validate_lock_def nick_lobbyPush nick_validate_host)

lemma nick_validate_fields:
  "nick (validate_fields lower cfg n) = cleanNick (orElse (nick n) (getDefaultNick cfg))"
  by (simp add: validate_fields_def setNick_def Let_def)

lemma nick_validate:
  "nick (networkAfter (validate lower cfg sts n)) = cleanNick (orElse (nick n) (getDefaultNick cfg))"
  by (simp add: validate_def nick_validate_lock nick_validate_fields)

lemma cleanNick_allowed: "list_all (\<lambda>c. \<not> nickDisallowed c) (cleanNick s)"
proof -
  have u: "\<not> nickDisallowed 95" by (simp add: nickDisallowed_def isSpace_def)
  have "list_all (\<lambda>c. \<not> nickDisallowed c) (map (\<lambda>c. if nickDisallowed c then 95 else c) s)"
    by (induction s) (simp_all add: u)
  then show ?thesis
    unfolding cleanNick_def list_all_iff by (meson in_set_takeD)
qed

lemma length_cleanNick: "length (cleanNick s) \<le> 100"
  by (simp add: cleanNick_def)


text \<open>
  C5 (amended). For every input nick, validate leaves the nick
  \<open>cleanNick (nick || default nick)\<close>: the configured default nick is taken when the
  submitted nick is empty, and it is cleaned the same way. The result contains no NUL, no
  white space and none of \<open>:\<close>, \<open>!\<close>, \<open>@\<close> (each is replaced by an underscore, not
  removed) and has at most 100 code units. Other control characters are kept.
\<close>

theorem validate_nick_clean:
  "nick (networkAfter (validate toLowerCase cfg sts n))
     = cleanNick (orElse (nick n) (getDefaultNick cfg))
   \<and> list_all (\<lambda>c. c \<noteq> 0 \<and> \<not> isSpace c \<and> c \<noteq> 58 \<and> c \<noteq> 33 \<and> c \<noteq> 64)
        (nick (networkAfter (validate toLowerCase cfg sts n)))
   \<and> length (nick (networkAfter (validate toLowerCase cfg sts n))) \<le> 100"
proof -
  have "list_all (\<lambda>c. \<not> nickDisallowed c) (cleanNick (orElse (nick n) (getDefaultNick cfg)))"
    by (rule cleanNick_allowed)
  then have "list_all (\<lambda>c. c \<noteq> 0 \<and> \<not> isSpace c \<and> c \<noteq> 58 \<and> c \<noteq> 33 \<and> c \<noteq> 64)
      (cleanNick (orElse (nick n) (getDefaultNick cfg)))"
    by (simp add: nickDisallowed_def)
  then show ?thesis
    by (simp add: nick_validate length_cleanNick)
qed

theorem validate_nick_clean_witness:
  "nick (networkAfter (validate lowerAscii openConfig noPolicy
       (exampleNetwork\<lparr>nick := js ''al ice:''\<rparr>))) = js ''al_ice_''
   \<and> nick (networkAfter (validate lowerAscii openConfig noPolicy
       (exampleNetwork\<lparr>nick := []\<rparr>))) = js ''lounge-user''"
  using validate_nick_clean [of lowerAscii openConfig noPolicy "exampleNetwork\<lparr>nick := js ''al ice:''\<rparr>"]
    validate_nick_clean [of lowerAscii openConfig noPolicy "exampleNetwork\<lparr>nick := []\<rparr>"]
  by (simp add: cleanNick_def orElse_def exampleNetwork_def openConfig_def nickDisallowed_def
      isSpace_def js_def)

text \<open>
  The claim as stated fails for a control character other than NUL and white space: the
  nick \<open>a U+0001 b\<close> is accepted unchanged.
\<close>

theorem validate_nick_control_counterexample:
  "returned (validate lowerAscii openConfig noPolicy (exampleNetwork\<lparr>nick := [97, 1, 98]\<rparr>))
     = Some True
   \<and> nick (networkAfter (validate lowerAscii openConfig noPolicy
        (exampleNetwork\<lparr>nick := [97, 1, 98]\<rparr>))) = [97, 1, 98]"
proof -
  have "returned (validate lowerAscii openConfig noPolicy (exampleNetwork\<lparr>nick := [97, 1, 98]\<rparr>))
      = Some True"
    by (simp add: returned_def validate_def validate_lock_def validate_host_def validate_sts_def
      validate_fields_def setNick_def exampleNetwork_def openConfig_def noPolicy_def Let_def
      cleanString_def lowerAscii_def js_def orElse_def falsyNumber_def)
  moreover have "nick (networkAfter (validate lowerAscii openConfig noPolicy
        (exampleNetwork\<lparr>nick := [97, 1, 98]\<rparr>))) = [97, 1, 98]"
    by (simp add: nick_validate cleanNick_def orElse_def exampleNetwork_def nickDisallowed_def
        isSpace_def)
  ultimately show ?thesis by simp
qed

lemma host_lobbyPush: "host (networkAfter (returning b (lobbyPush n m))) = host n"
  using lobbyPush_cases [of n m] by (auto simp: networkAfter_def returning_def)

lemma host_validate_sts: "host (networkAfter (validate_sts sts n)) = host n"
  by (auto simp: validate_sts_def networkAfter_def split: option.splits sum.splits
      dest!: lobbyPush_Inl lobbyPush_Inr)

lemma host_validate_host: "host (networkAfter (validate_host sts n)) = host n"
  by (simp add: validate_host_def host_lobbyPush host_validate_sts)

lemma host_validate_lock:
  "host (networkAfter (validate_lock cfg sts n))
     = (if lockNetwork cfg \<and> \<not> lockRejects cfg n then defaults_host cfg else host n)"
  by (simp add: validate_lock_def host_lobbyPush host_validate_host)

lemma host_validate_fields:
  "host (validate_fields toLowerCase cfg n) = toLowerCase (cleanString (host n))"
  by (simp add: validate_fields_def setNick_def Let_def)

text \<open>
  C6 (amended). With \<open>h\<close> the submitted host with NUL, CR and LF removed, cut to 300 code
  units and lowercased: after validate the host is \<open>h\<close>, unless the deployment is locked
  to one network and the lock does not reject \<open>h\<close> (public mode, or \<open>h\<close> empty, or \<open>h\<close> the
  administrator's default); then the host is the administrator's default.
\<close>

theorem validate_host_normalised:
  "host (networkAfter (validate toLowerCase cfg sts n))
     = (let h = toLowerCase (cleanString (host n))
        in if lockNetwork cfg \<and> (public cfg \<or> h = [] \<or> h = defaults_host cfg)
           then defaults_host cfg else h)"
  by (auto simp: validate_def host_validate_lock host_validate_fields lockRejects_def Let_def)

theorem validate_host_normalised_witness:
  "host (networkAfter (validate lowerAscii openConfig noPolicy
       (exampleNetwork\<lparr>host := js ''IRC.Example.ORG''\<rparr>))) = js ''irc.example.org''"
  using validate_host_normalised [of lowerAscii openConfig noPolicy
      "exampleNetwork\<lparr>host := js ''IRC.Example.ORG''\<rparr>"]
  by (simp add: cleanString_def lowerAscii_def exampleNetwork_def openConfig_def js_def)

text \<open>
  The claim as stated fails in a locked deployment, where the submitted host is replaced
  by the default, and for a control character other than NUL, CR and LF (here a tab),
  which stays in the host.
\<close>

theorem validate_host_locked_counterexample:
  "host (networkAfter (validate lowerAscii (lockedConfig\<lparr>public := True\<rparr>) noPolicy
       (exampleNetwork\<lparr>host := js ''irc.other.net''\<rparr>))) = js ''irc.example.org''
   \<and> lowerAscii (take 300 (filter (\<lambda>c. c \<noteq> 0 \<and> c \<noteq> 13 \<and> c \<noteq> 10) (js ''irc.other.net'')))
       = js ''irc.other.net''
   \<and> host (networkAfter (validate lowerAscii openConfig noPolicy
       (exampleNetwork\<lparr>host := [97, 9, 98]\<rparr>))) = [97, 9, 98]"
  by (simp add: validate_def host_validate_lock host_validate_fields lockRejects_def
      cleanString_def lowerAscii_def exampleNetwork_def openConfig_def lockedConfig_def js_def)


lemma validate_sts_True:
  assumes "validate_sts sts n = Inr (b, n')"
  shows "b \<and> host n' = host n"
    and "sts (host n) = Some p \<Longrightarrow> \<not> tls n \<Longrightarrow>
         channels n \<noteq> [] \<and>
         n' = n\<lparr>channels := pushMessage (hd (channels n)) (stsNotice (host n) p) # tl (channels n),
                port := Num (sts_policy.port p), tls := True, rejectUnauthorized := True\<rparr>"
    and "sts (host n) = None \<or> tls n \<Longrightarrow> n' = n"
  using assms
  by (auto simp: validate_sts_def stsNotice_def split: option.splits sum.splits if_splits
      dest!: lobbyPush_Inl lobbyPush_Inr)

lemma returning_False: "returning False r \<noteq> Inr (True, n')"
  by (auto simp: returning_def split: sum.splits)

lemma validate_host_True:
  "validate_host sts n = Inr (True, n') \<Longrightarrow> host n \<noteq> [] \<and> validate_sts sts n = Inr (True, n')"
  by (auto simp: validate_host_def returning_False split: if_splits)

lemma validate_lock_True:
  "validate_lock cfg sts n = Inr (True, n') \<Longrightarrow>
     validate_host sts (if lockNetwork cfg
        then n\<lparr>host := defaults_host cfg, port := defaults_port cfg, tls := defaults_tls cfg,
               rejectUnauthorized := defaults_rejectUnauthorized cfg\<rparr>
        else n) = Inr (True, n')"
  by (auto simp: validate_lock_def returning_False split: if_splits)

lemma validate_fields_keeps:
  "tls (validate_fields toLowerCase cfg n) = tls n"
  "channels (validate_fields toLowerCase cfg n) = channels n"
  "irc (validate_fields toLowerCase cfg n) = irc n"
  "rejectUnauthorized (validate_fields toLowerCase cfg n) = rejectUnauthorized n"
  by (simp_all add: validate_fields_def setNick_def Let_def)

text \<open>
  C4 (amended). If the policy store holds an unexpired policy for the validated host
  (\<open>sts\<close>, the store's lookup, returns it) and the TLS flag is off when the store is
  consulted (the network's own flag, or the administrator's default flag in a deployment
  locked to one network), then validate returning true leaves \<open>tls\<close> and
  \<open>rejectUnauthorized\<close> true and the port equal to the policy's port, and the notice of
  the upgrade has been pushed to the lobby.
\<close>

theorem validate_sts_upgrade:
  assumes ok: "validate toLowerCase cfg sts n = Inr (True, n')"
    and pol: "sts (host n') = Some p"
    and off: "\<not> (if lockNetwork cfg then defaults_tls cfg else tls n)"
  shows "tls n' \<and> rejectUnauthorized n' \<and> port n' = Num (sts_policy.port p)
         \<and> channels n \<noteq> []
         \<and> channels n' = pushMessage (hd (channels n)) (stsNotice (host n') p) # tl (channels n)"
proof -
  define nf where "nf = validate_fields toLowerCase cfg n"
  define m where "m = (if lockNetwork cfg
        then nf\<lparr>host := defaults_host cfg, port := defaults_port cfg, tls := defaults_tls cfg,
               rejectUnauthorized := defaults_rejectUnauthorized cfg\<rparr>
        else nf)"
  have "validate_lock cfg sts nf = Inr (True, n')"
    using ok by (simp add: validate_def nf_def)
  then have "validate_host sts m = Inr (True, n')"
    unfolding m_def by (rule validate_lock_True)
  then have s: "validate_sts sts m = Inr (True, n')"
    by (simp add: validate_host_True)
  have h: "host n' = host m"
    using validate_sts_True(1) [OF s] by simp
  have t: "\<not> tls m"
    using off by (auto simp: m_def nf_def validate_fields_keeps split: if_splits)
  have c: "channels m = channels n"
    by (simp add: m_def nf_def validate_fields_keeps)
  have "channels m \<noteq> [] \<and>
         n' = m\<lparr>channels := pushMessage (hd (channels m)) (stsNotice (host m) p) # tl (channels m),
                port := Num (sts_policy.port p), tls := True, rejectUnauthorized := True\<rparr>"
    using validate_sts_True(2) [OF s _ t] pol h by simp
  then show ?thesis
    using c h by auto
qed

lemma examplePolicy_get:
  "sts_get 1000 examplePolicies (js ''irc.example.org'')
     = Some \<lparr>sts_policy.port = 7000, duration = 3600, expires = 5000\<rparr>"
  by (simp add: sts_get_def examplePolicies_def)

lemma example_open_validate:
  "validate lowerAscii openConfig (sts_get 1000 examplePolicies) exampleNetwork
    = Inr (True, exampleNetwork\<lparr>
        highlightRegex := Some (js ''(?:^|[^a-z0-9]|'' @ [3] @ js ''[0-9]{1,2})alice(?:[^a-z0-9]|$)''),
        channels := [pushMessage (lobbyOf (js ''Example''))
           (stsNotice (js ''irc.example.org'') \<lparr>sts_policy.port = 7000, duration = 3600, expires = 5000\<rparr>)],
        port := Num 7000, tls := True, rejectUnauthorized := True\<rparr>)"
  by (simp add: validate_def validate_lock_def validate_host_def validate_sts_def
      validate_fields_def setNick_def exampleNetwork_def openConfig_def Let_def
      cleanString_def cleanNick_def nickDisallowed_def isSpace_def isAlnum_def lowerAscii_def js_def orElse_def falsyNumber_def
      examplePolicies_def sts_get_def lobbyPush_def stsNotice_def escapeRegExp_def regExpChar_def)


theorem validate_sts_upgrade_witness:
  "returned (validate lowerAscii openConfig (sts_get 1000 examplePolicies) exampleNetwork) = Some True
   \<and> tls (networkAfter (validate lowerAscii openConfig (sts_get 1000 examplePolicies) exampleNetwork))
   \<and> rejectUnauthorized
       (networkAfter (validate lowerAscii openConfig (sts_get 1000 examplePolicies) exampleNetwork))
   \<and> port (networkAfter (validate lowerAscii openConfig (sts_get 1000 examplePolicies) exampleNetwork))
       = Num 7000"
proof -
  have pol: "sts_get 1000 examplePolicies (host (exampleNetwork\<lparr>
        highlightRegex := Some (js ''(?:^|[^a-z0-9]|'' @ [3] @ js ''[0-9]{1,2})alice(?:[^a-z0-9]|$)''),
        channels := [pushMessage (lobbyOf (js ''Example''))
           (stsNotice (js ''irc.example.org'') \<lparr>sts_policy.port = 7000, duration = 3600, expires = 5000\<rparr>)],
        port := Num 7000, tls := True, rejectUnauthorized := True\<rparr>))
      = Some \<lparr>sts_policy.port = 7000, duration = 3600, expires = 5000\<rparr>"
    using examplePolicy_get by (simp add: exampleNetwork_def)
  have off: "\<not> (if lockNetwork openConfig then defaults_tls openConfig else tls exampleNetwork)"
    by (simp add: openConfig_def exampleNetwork_def)
  from validate_sts_upgrade [OF example_open_validate pol off]
  show ?thesis
    by (simp add: example_open_validate networkAfter_def returned_def)
qed

text \<open>
  The claim as stated fails in a locked deployment whose default is TLS: the network's
  own flag is off and the host has a policy, yet validate returns true with the
  administrator's port and certificate flag, and pushes no notice.
\<close>

lemma example_locked_validate:
  "validate lowerAscii lockedConfig (sts_get 1000 examplePolicies) exampleNetwork
    = Inr (True, exampleNetwork\<lparr>
        highlightRegex := Some (js ''(?:^|[^a-z0-9]|'' @ [3] @ js ''[0-9]{1,2})alice(?:[^a-z0-9]|$)''),
        port := Num 6697, tls := True\<rparr>)"
  by (simp add: validate_def validate_lock_def validate_host_def validate_sts_def lockRejects_def
      validate_fields_def setNick_def exampleNetwork_def openConfig_def lockedConfig_def Let_def
      cleanString_def cleanNick_def nickDisallowed_def isSpace_def isAlnum_def lowerAscii_def js_def orElse_def falsyNumber_def
      examplePolicies_def sts_get_def lobbyPush_def stsNotice_def escapeRegExp_def regExpChar_def)

theorem validate_sts_locked_counterexample:
  "\<not> tls exampleNetwork
   \<and> returned (validate lowerAscii lockedConfig (sts_get 1000 examplePolicies) exampleNetwork)
       = Some True
   \<and> sts_get 1000 examplePolicies
        (host (networkAfter (validate lowerAscii lockedConfig (sts_get 1000 examplePolicies)
           exampleNetwork)))
       = Some \<lparr>sts_policy.port = 7000, duration = 3600, expires = 5000\<rparr>
   \<and> \<not> rejectUnauthorized
        (networkAfter (validate lowerAscii lockedConfig (sts_get 1000 examplePolicies) exampleNetwork))
   \<and> port (networkAfter (validate lowerAscii lockedConfig (sts_get 1000 examplePolicies)
        exampleNetwork)) = Num 6697
   \<and> channels (networkAfter (validate lowerAscii lockedConfig (sts_get 1000 examplePolicies)
        exampleNetwork)) = channels exampleNetwork"
  unfolding example_locked_validate networkAfter_def returned_def
  using examplePolicy_get by (simp add: exampleNetwork_def)


section \<open>Properties of edit\<close>












section \<open>Properties of addChannel\<close>

lemma scanIndex_takeWhile:
  "i \<le> length cs \<Longrightarrow>
   scanIndex cmp x cs i = i + length (takeWhile (\<lambda>c. \<not> stopsAt cmp x c) (drop i cs))"
proof (induction cmp x cs i rule: scanIndex.induct)
  case (1 cmp x cs i)
  show ?case
  proof (cases "i < length cs")
    case True
    then have d: "drop i cs = cs ! i # drop (Suc i) cs"
      by (simp add: Cons_nth_drop_Suc)
    show ?thesis
    proof (cases "stopsAt cmp x (cs ! i)")
      case True
      with \<open>i < length cs\<close> d show ?thesis by simp
    next
      case False
      with \<open>i < length cs\<close> d "1.IH" show ?thesis by simp
    qed
  next
    case False
    with "1.prems" show ?thesis by simp
  qed
qed

lemma addChannel_channels:
  assumes "channels n = l # r"
  shows "channels (snd (addChannel cmp x n))
     = (if isChannelOrQuery x
        then l # takeWhile (\<lambda>c. \<not> stopsAt cmp x c) r @ x # dropWhile (\<lambda>c. \<not> stopsAt cmp x c) r
        else l # r @ [x])"
    and "fst (addChannel cmp x n)
     = (if isChannelOrQuery x
        then Suc (length (takeWhile (\<lambda>c. \<not> stopsAt cmp x c) r))
        else Suc (length r))"
proof -
  have s: "scanIndex cmp x (l # r) 1 = Suc (length (takeWhile (\<lambda>c. \<not> stopsAt cmp x c) r))"
    using scanIndex_takeWhile [of 1 "l # r" cmp x] by simp
  have t: "take (length (takeWhile (\<lambda>c. \<not> stopsAt cmp x c) r)) r = takeWhile (\<lambda>c. \<not> stopsAt cmp x c) r"
    by (simp add: takeWhile_eq_take [symmetric])
  have d: "drop (length (takeWhile (\<lambda>c. \<not> stopsAt cmp x c) r)) r = dropWhile (\<lambda>c. \<not> stopsAt cmp x c) r"
    by (simp add: dropWhile_eq_drop [symmetric])
  show "channels (snd (addChannel cmp x n))
     = (if isChannelOrQuery x
        then l # takeWhile (\<lambda>c. \<not> stopsAt cmp x c) r @ x # dropWhile (\<lambda>c. \<not> stopsAt cmp x c) r
        else l # r @ [x])"
    using assms s t d by (simp add: addChannel_def isChannelOrQuery_def Let_def del: scanIndex.simps)
  show "fst (addChannel cmp x n)
     = (if isChannelOrQuery x
        then Suc (length (takeWhile (\<lambda>c. \<not> stopsAt cmp x c) r))
        else Suc (length r))"
    using assms s by (simp add: addChannel_def isChannelOrQuery_def Let_def del: scanIndex.simps)
qed

lemma sorted_wrt_insert:
  assumes tot: "\<And>a. \<not> le x a \<Longrightarrow> le a x"
    and tr: "\<And>a b. le x a \<Longrightarrow> le a b \<Longrightarrow> le x b"
    and so: "sorted_wrt le A"
  shows "sorted_wrt le (takeWhile (\<lambda>a. \<not> le x a) A @ x # dropWhile (\<lambda>a. \<not> le x a) A)"
  using so
proof (induction A)
  case Nil
  show ?case by simp
next
  case (Cons a A)
  show ?case
  proof (cases "le x a")
    case True
    have "\<forall>b\<in>set A. le x b"
      using Cons.prems True tr by auto
    with True Cons.prems show ?thesis by simp
  next
    case False
    have "\<forall>b\<in>set (takeWhile (\<lambda>a. \<not> le x a) A @ x # dropWhile (\<lambda>a. \<not> le x a) A). le a b"
    proof
      fix b assume "b \<in> set (takeWhile (\<lambda>a. \<not> le x a) A @ x # dropWhile (\<lambda>a. \<not> le x a) A)"
      then have "b = x \<or> b \<in> set A"
        by (auto dest: set_takeWhileD in_set_dropD simp: dropWhile_eq_drop)
      then show "le a b"
        using False tot Cons.prems by auto
    qed
    with False Cons show ?thesis by simp
  qed
qed


lemma scan_split:
  "takeWhile (\<lambda>c. \<not> stopsAt cmp x c) r
     = takeWhile (\<lambda>a. \<not> leName cmp x a) (takeWhile isChannelOrQuery r)"
  "dropWhile (\<lambda>c. \<not> stopsAt cmp x c) r
     = dropWhile (\<lambda>a. \<not> leName cmp x a) (takeWhile isChannelOrQuery r)
       @ dropWhile isChannelOrQuery r"
  by (induction r) (auto simp: stopsAt_def leName_def isChannelOrQuery_def)

lemma takeWhile_after_prefix:
  assumes "\<forall>a\<in>set A. P a"
  shows "takeWhile P (A @ dropWhile P r) = A" "dropWhile P (A @ dropWhile P r) = dropWhile P r"
proof -
  have "takeWhile P (dropWhile P r) = []"
    by (induction r) auto
  then show "takeWhile P (A @ dropWhile P r) = A"
    using assms by simp
  show "dropWhile P (A @ dropWhile P r) = dropWhile P r"
    using assms by simp
qed

lemma none_takeWhile:
  "list_all (\<lambda>c. \<not> P c) ys \<Longrightarrow> takeWhile P ys = [] \<and> dropWhile P ys = ys"
  by (cases ys) auto

lemma ordered_insert_channel:
  assumes tp: "totalPreorder cmp" and cq: "isChannelOrQuery x"
    and ord: "registryOrdered cmp (l # r)"
  shows "registryOrdered cmp
     (l # takeWhile (\<lambda>c. \<not> stopsAt cmp x c) r @ x # dropWhile (\<lambda>c. \<not> stopsAt cmp x c) r)"
proof -
  define A where "A = takeWhile isChannelOrQuery r"
  define A' where "A' = takeWhile (\<lambda>a. \<not> leName cmp x a) A @ x # dropWhile (\<lambda>a. \<not> leName cmp x a) A"
  have so: "sorted_wrt (leName cmp) A"
    using ord by (simp add: registryOrdered_def A_def)
  have so': "sorted_wrt (leName cmp) A'"
    unfolding A'_def
  proof (rule sorted_wrt_insert [OF _ _ so])
    fix a assume "\<not> leName cmp x a"
    then show "leName cmp a x"
      using tp unfolding totalPreorder_def leName_def by (metis not_le)
  next
    fix a b assume "leName cmp x a" "leName cmp a b"
    then show "leName cmp x b"
      using tp unfolding totalPreorder_def leName_def by blast
  qed
  have "\<forall>a\<in>set A. isChannelOrQuery a"
    unfolding A_def by (auto dest: set_takeWhileD)
  then have all: "\<forall>a\<in>set A'. isChannelOrQuery a"
    using cq unfolding A'_def by (auto dest: set_takeWhileD in_set_dropD simp: dropWhile_eq_drop)
  have eq: "takeWhile (\<lambda>c. \<not> stopsAt cmp x c) r @ x # dropWhile (\<lambda>c. \<not> stopsAt cmp x c) r
      = A' @ dropWhile isChannelOrQuery r"
    by (simp add: scan_split A'_def A_def)
  show ?thesis
    using so' ord
    by (simp add: registryOrdered_def eq takeWhile_after_prefix [OF all])
qed

lemma ordered_append_special:
  assumes cq: "\<not> isChannelOrQuery x" and ord: "registryOrdered cmp (l # r)"
  shows "registryOrdered cmp (l # r @ [x])"
proof -
  define A where "A = takeWhile isChannelOrQuery r"
  define B where "B = dropWhile isChannelOrQuery r"
  have r: "r = A @ B" by (simp add: A_def B_def)
  have allA: "\<forall>a\<in>set A. isChannelOrQuery a"
    unfolding A_def by (auto dest: set_takeWhileD)
  have noneB: "list_all (\<lambda>c. \<not> isChannelOrQuery c) (B @ [x])"
    using ord cq by (simp add: registryOrdered_def B_def)
  have t: "takeWhile isChannelOrQuery (r @ [x]) = A"
    using allA none_takeWhile [OF noneB] by (simp add: r)
  have d: "dropWhile isChannelOrQuery (r @ [x]) = B @ [x]"
    using allA none_takeWhile [OF noneB] by (simp add: r)
  show ?thesis
    using ord noneB by (simp add: registryOrdered_def t d) (simp add: A_def)
qed

lemma ordered_subsequence:
  assumes "registryOrdered cmp cs"
  shows "subsequenceSorted cmp cs"
proof -
  define r where "r = tl cs"
  have "filter isChannelOrQuery (takeWhile isChannelOrQuery r @ dropWhile isChannelOrQuery r)
      = takeWhile isChannelOrQuery r"
    using assms unfolding registryOrdered_def r_def [symmetric] list_all_iff filter_append
    by (simp add: filter_id_conv) (auto dest: set_takeWhileD)
  then show ?thesis
    using assms by (simp add: subsequenceSorted_def registryOrdered_def r_def)
qed


lemma compareUnits_total: "0 < compareUnits a b \<Longrightarrow> compareUnits b a \<le> 0"
  by (induction a b rule: compareUnits.induct) (auto split: if_splits)

lemma compareUnits_trans:
  "compareUnits a b \<le> 0 \<Longrightarrow> compareUnits b c \<le> 0 \<Longrightarrow> compareUnits a c \<le> 0"
proof (induction a b arbitrary: c rule: compareUnits.induct)
  case 1
  then show ?case by simp
next
  case (2 b bs)
  then show ?case by (cases c) auto
next
  case (3 a as)
  then show ?case by simp
next
  case (4 a as b bs)
  show ?case
  proof (cases c)
    case Nil
    with 4 show ?thesis by simp
  next
    case (Cons d ds)
    with "4.prems" "4.IH" [of ds] show ?thesis
      by (auto split: if_splits)
  qed
qed

lemma totalPreorder_compareAscii: "totalPreorder compareAscii"
  unfolding totalPreorder_def compareAscii_def
  using compareUnits_total compareUnits_trans by blast

lemma registryOrdered_lobby: "registryOrdered cmp [l]"
  by (simp add: registryOrdered_def)

text \<open>
  C7 (amended). On a registry with a lobby, addChannel returns the index it uses and
  inserts the entity there, leaving the other entries in order and the lobby at index 0.
  For a channel or query the index is the first one from 1 whose occupant compares at or
  after the new entity or is not a channel or query, and the length of the list when there
  is none; for an entity of another kind it is the length of the list. When the comparison
  is a total preorder and no entity of another kind stands before a channel or query
  (channels and queries sorted, then the others), the registry stays so, and so its
  channels and queries stay sorted among themselves. Inserting the channel mango into
  lobby, alpha, zulu gives lobby, alpha, mango, zulu when the comparison puts mango after
  alpha and not after zulu.
\<close>

theorem addChannel_insertion:
  assumes ne: "channels n \<noteq> []"
  shows "let idx = fst (addChannel localeCompare newChan n);
             cs = channels n;
             cs' = channels (snd (addChannel localeCompare newChan n))
         in (isChannelOrQuery newChan \<longrightarrow>
               1 \<le> idx \<and> idx \<le> length cs
               \<and> (idx < length cs \<longrightarrow> stopsAt localeCompare newChan (cs ! idx))
               \<and> (\<forall>j. 1 \<le> j \<and> j < idx \<longrightarrow> \<not> stopsAt localeCompare newChan (cs ! j)))
            \<and> (\<not> isChannelOrQuery newChan \<longrightarrow> idx = length cs)
            \<and> cs' = take idx cs @ newChan # drop idx cs
            \<and> cs' ! idx = newChan
            \<and> cs' ! 0 = cs ! 0
            \<and> (totalPreorder localeCompare \<and> registryOrdered localeCompare cs \<longrightarrow>
                 registryOrdered localeCompare cs' \<and> subsequenceSorted localeCompare cs')
            \<and> (0 < localeCompare (js ''mango'') (js ''alpha'')
                 \<and> localeCompare (js ''mango'') (js ''zulu'') \<le> 0 \<longrightarrow>
                 channels (snd (addChannel localeCompare (channelNamed ''mango'') registryExample))
                   = [lobbyOf (js ''Example''), channelNamed ''alpha'', channelNamed ''mango'',
                      channelNamed ''zulu''])"
proof -
  obtain l r where lr: "channels n = l # r"
    using ne by (cases "channels n") auto
  define Q where "Q = (\<lambda>c. \<not> stopsAt localeCompare newChan c)"
  define k where "k = length (takeWhile Q r)"
  have cs': "channels (snd (addChannel localeCompare newChan n))
     = (if isChannelOrQuery newChan then l # takeWhile Q r @ newChan # dropWhile Q r
        else l # r @ [newChan])"
    unfolding Q_def by (rule addChannel_channels(1) [OF lr])
  have idx: "fst (addChannel localeCompare newChan n)
     = (if isChannelOrQuery newChan then Suc k else Suc (length r))"
    unfolding k_def Q_def by (rule addChannel_channels(2) [OF lr])
  have kle: "k \<le> length r"
    by (simp add: k_def length_takeWhile_le)
  have tk: "take k r = takeWhile Q r" and dk: "drop k r = dropWhile Q r"
    by (simp_all add: k_def takeWhile_eq_take [symmetric] dropWhile_eq_drop [symmetric])
  have stop: "k < length r \<Longrightarrow> stopsAt localeCompare newChan (r ! k)"
    using nth_length_takeWhile [of Q r] by (simp add: k_def Q_def)
  have before: "\<And>j. j < k \<Longrightarrow> \<not> stopsAt localeCompare newChan (r ! j)"
  proof -
    fix j assume j: "j < k"
    then have "takeWhile Q r ! j = r ! j"
      by (simp add: k_def takeWhile_nth)
    moreover have "takeWhile Q r ! j \<in> set (takeWhile Q r)"
      using j by (simp add: k_def)
    ultimately show "\<not> stopsAt localeCompare newChan (r ! j)"
      by (auto dest: set_takeWhileD simp: Q_def)
  qed
  define idx where "idx = fst (addChannel localeCompare newChan n)"
  define cs1 where "cs1 = channels (snd (addChannel localeCompare newChan n))"
  have c1: "isChannelOrQuery newChan \<longrightarrow>
      1 \<le> idx \<and> idx \<le> length (channels n)
      \<and> (idx < length (channels n) \<longrightarrow> stopsAt localeCompare newChan (channels n ! idx))
      \<and> (\<forall>j. 1 \<le> j \<and> j < idx \<longrightarrow> \<not> stopsAt localeCompare newChan (channels n ! j))"
  proof
    assume cq: "isChannelOrQuery newChan"
    then have i: "idx = Suc k"
      by (simp add: idx_def idx)
    have "\<forall>j. 1 \<le> j \<and> j < Suc k \<longrightarrow> \<not> stopsAt localeCompare newChan ((l # r) ! j)"
    proof (intro allI impI)
      fix j assume "1 \<le> j \<and> j < Suc k"
      then obtain j' where "j = Suc j'" "j' < k"
        by (cases j) auto
      then show "\<not> stopsAt localeCompare newChan ((l # r) ! j)"
        using before by simp
    qed
    then show "1 \<le> idx \<and> idx \<le> length (channels n)
      \<and> (idx < length (channels n) \<longrightarrow> stopsAt localeCompare newChan (channels n ! idx))
      \<and> (\<forall>j. 1 \<le> j \<and> j < idx \<longrightarrow> \<not> stopsAt localeCompare newChan (channels n ! j))"
      using kle stop by (simp add: i lr)
  qed
  have c2: "\<not> isChannelOrQuery newChan \<longrightarrow> idx = length (channels n)"
    by (simp add: idx_def idx lr)
  have c3: "cs1 = take idx (channels n) @ newChan # drop idx (channels n)"
    by (cases "isChannelOrQuery newChan") (simp_all add: cs1_def cs' idx_def idx lr tk dk)
  have c4: "cs1 ! idx = newChan"
    by (cases "isChannelOrQuery newChan")
      (simp_all add: cs1_def cs' idx_def idx k_def nth_append)
  have c5: "cs1 ! 0 = channels n ! 0"
    by (cases "isChannelOrQuery newChan") (simp_all add: cs1_def cs' lr)
  have c6: "totalPreorder localeCompare \<and> registryOrdered localeCompare (channels n) \<longrightarrow>
      registryOrdered localeCompare cs1 \<and> subsequenceSorted localeCompare cs1"
  proof
    assume h: "totalPreorder localeCompare \<and> registryOrdered localeCompare (channels n)"
    have "registryOrdered localeCompare cs1"
    proof (cases "isChannelOrQuery newChan")
      case True
      with h show ?thesis
        using ordered_insert_channel [of localeCompare newChan l r]
        by (simp add: cs1_def cs' lr Q_def)
    next
      case False
      with h show ?thesis
        using ordered_append_special [of newChan localeCompare l r]
        by (simp add: cs1_def cs' lr)
    qed
    then show "registryOrdered localeCompare cs1 \<and> subsequenceSorted localeCompare cs1"
      by (simp add: ordered_subsequence)
  qed
  have c7: "0 < localeCompare (js ''mango'') (js ''alpha'')
        \<and> localeCompare (js ''mango'') (js ''zulu'') \<le> 0 \<longrightarrow>
      channels (snd (addChannel localeCompare (channelNamed ''mango'') registryExample))
        = [lobbyOf (js ''Example''), channelNamed ''alpha'', channelNamed ''mango'',
           channelNamed ''zulu'']"
  proof -
    have lr0: "channels registryExample
        = lobbyOf (js ''Example'') # [channelNamed ''alpha'', channelNamed ''zulu'']"
      by (simp add: registryExample_def)
    show ?thesis
      unfolding addChannel_channels(1) [OF lr0]
      by (simp add: isChannelOrQuery_def stopsAt_def channelNamed_def)
  qed
  show ?thesis
    unfolding Let_def idx_def [symmetric] cs1_def [symmetric]
    using c1 c2 c3 c4 c5 c6 c7 by blast
qed


lemma compareAscii_examples:
  "0 < compareAscii (js ''mango'') (js ''alpha'')"
  "compareAscii (js ''mango'') (js ''zulu'') \<le> 0"
  "compareAscii (js ''alpha'') (js ''zulu'') \<le> 0"
  "0 < compareAscii (js ''d'') (js ''a'')"
  "compareAscii (js ''a'') (js ''c'') \<le> 0"
  "compareAscii (js ''a'') (js ''d'') \<le> 0"
  "0 < compareAscii (js ''d'') (js ''c'')"
  by (simp_all add: compareAscii_def lowerAscii_def js_def)

theorem addChannel_insertion_witness:
  "channels (snd (addChannel compareAscii (channelNamed ''mango'') registryExample))
     = [lobbyOf (js ''Example''), channelNamed ''alpha'', channelNamed ''mango'',
        channelNamed ''zulu'']
   \<and> registryOrdered compareAscii
       (channels (snd (addChannel compareAscii (channelNamed ''mango'') registryExample)))
   \<and> subsequenceSorted compareAscii
       (channels (snd (addChannel compareAscii (channelNamed ''mango'') registryExample)))
   \<and> channels (snd (addChannel compareAscii (channelNamed ''mango'') registryExample))
       ! fst (addChannel compareAscii (channelNamed ''mango'') registryExample)
       = channelNamed ''mango''"
proof -
  have ne: "channels registryExample \<noteq> []"
    by (simp add: registryExample_def)
  have ord: "registryOrdered compareAscii (channels registryExample)"
    by (simp add: registryExample_def registryOrdered_def leName_def isChannelOrQuery_def
        channelNamed_def compareAscii_examples)
  show ?thesis
    using addChannel_insertion [OF ne, of compareAscii "channelNamed ''mango''", unfolded Let_def]
      totalPreorder_compareAscii ord compareAscii_examples
    by blast
qed

text \<open>
  Sortedness of the channels and queries among themselves is not kept on its own: an
  entity of another kind before a channel stops the scan. In lobby, a, s (special), c the
  channel d is inserted before s, and the channels read a, d, c.
\<close>

theorem addChannel_boundary_counterexample:
  "subsequenceSorted compareAscii (channels boundaryExample)
   \<and> channels (snd (addChannel compareAscii (channelNamed ''d'') boundaryExample))
       = [lobbyOf (js ''Example''), channelNamed ''a'', channelNamed ''d'', specialNamed ''s'',
          channelNamed ''c'']
   \<and> \<not> subsequenceSorted compareAscii
         (channels (snd (addChannel compareAscii (channelNamed ''d'') boundaryExample)))"
proof -
  have lr: "channels boundaryExample
      = lobbyOf (js ''Example'') # [channelNamed ''a'', specialNamed ''s'', channelNamed ''c'']"
    by (simp add: boundaryExample_def)
  have a: "subsequenceSorted compareAscii (channels boundaryExample)"
    by (simp add: lr subsequenceSorted_def leName_def isChannelOrQuery_def channelNamed_def
        specialNamed_def compareAscii_examples)
  have b: "channels (snd (addChannel compareAscii (channelNamed ''d'') boundaryExample))
       = [lobbyOf (js ''Example''), channelNamed ''a'', channelNamed ''d'', specialNamed ''s'',
          channelNamed ''c'']"
    unfolding addChannel_channels(1) [OF lr]
    using compareAscii_examples
    by (simp add: isChannelOrQuery_def stopsAt_def channelNamed_def specialNamed_def)
  have c: "\<not> subsequenceSorted compareAscii
       [lobbyOf (js ''Example''), channelNamed ''a'', channelNamed ''d'', specialNamed ''s'',
          channelNamed ''c'']"
    using compareAscii_examples
    by (simp add: subsequenceSorted_def leName_def isChannelOrQuery_def channelNamed_def
        specialNamed_def)
  show ?thesis
    using a b c by simp
qed


section \<open>Properties of getChannel\<close>

lemma findIndexed_positive:
  "0 < i \<Longrightarrow> findIndexed (\<lambda>that k. k > 0 \<and> Q that) xs i = find Q xs"
  by (induction xs arbitrary: i) auto

lemma getChannel_find:
  "getChannel toLowerCase n nm
     = find (\<lambda>that. toLowerCase (chan.name that) = toLowerCase nm) (tl (channels n))"
  by (cases "channels n") (simp_all add: getChannel_def Let_def findIndexed_positive)

text \<open>
  C10 (amended). getChannel compares names after \<open>toLowerCase\<close> and looks only at the
  entries from index 1, of whatever kind: it is the first such entry whose lowercased name
  is the lowercased argument, and absent when there is none, whatever the name of the
  lobby at index 0; on a network that holds only its lobby it is absent for every name.
\<close>

theorem getChannel_skips_lobby:
  "getChannel toLowerCase n nm
     = find (\<lambda>that. toLowerCase (chan.name that) = toLowerCase nm) (tl (channels n))
   \<and> ((\<forall>i. 1 \<le> i \<and> i < length (channels n) \<longrightarrow>
          toLowerCase (chan.name (channels n ! i)) \<noteq> toLowerCase nm) \<longrightarrow>
        getChannel toLowerCase n nm = None)
   \<and> (\<forall>c. getChannel toLowerCase n nm = Some c \<longrightarrow>
        (\<exists>i. 1 \<le> i \<and> i < length (channels n) \<and> channels n ! i = c
           \<and> toLowerCase (chan.name c) = toLowerCase nm
           \<and> (\<forall>j. 1 \<le> j \<and> j < i \<longrightarrow>
                 toLowerCase (chan.name (channels n ! j)) \<noteq> toLowerCase nm)))
   \<and> (\<forall>l. channels n = [l] \<longrightarrow> getChannel toLowerCase n nm = None)"
proof -
  define Q where "Q = (\<lambda>that::chan. toLowerCase (chan.name that) = toLowerCase nm)"
  define r where "r = tl (channels n)"
  have g: "getChannel toLowerCase n nm = find Q r"
    by (simp add: getChannel_find Q_def r_def)
  have nth: "\<And>i. i < length r \<Longrightarrow> channels n ! Suc i = r ! i"
    by (cases "channels n") (simp_all add: r_def)
  have len: "length r = length (channels n) - 1"
    by (simp add: r_def)
  have none: "(\<forall>i. 1 \<le> i \<and> i < length (channels n) \<longrightarrow> \<not> Q (channels n ! i)) \<longrightarrow> find Q r = None"
  proof
    assume h: "\<forall>i. 1 \<le> i \<and> i < length (channels n) \<longrightarrow> \<not> Q (channels n ! i)"
    have "\<not> Q x" if "x \<in> set r" for x
    proof -
      from that obtain i where i: "i < length r" "r ! i = x"
        by (auto simp: in_set_conv_nth)
      then have "\<not> Q (channels n ! Suc i)"
        using h len by auto
      then show ?thesis using i nth by simp
    qed
    then show "find Q r = None"
      by (simp add: find_None_iff)
  qed
  have some: "\<forall>c. find Q r = Some c \<longrightarrow>
        (\<exists>i. 1 \<le> i \<and> i < length (channels n) \<and> channels n ! i = c \<and> Q c
           \<and> (\<forall>j. 1 \<le> j \<and> j < i \<longrightarrow> \<not> Q (channels n ! j)))"
  proof (intro allI impI)
    fix c assume "find Q r = Some c"
    then obtain i where i: "i < length r" "Q (r ! i)" "c = r ! i" "\<forall>j<i. \<not> Q (r ! j)"
      by (auto simp: find_Some_iff)
    have "\<forall>j. 1 \<le> j \<and> j < Suc i \<longrightarrow> \<not> Q (channels n ! j)"
    proof (intro allI impI)
      fix j assume "1 \<le> j \<and> j < Suc i"
      then obtain j' where j': "j = Suc j'" "j' < i"
        by (cases j) auto
      then show "\<not> Q (channels n ! j)"
        using i nth [of j'] by simp
    qed
    then show "\<exists>i. 1 \<le> i \<and> i < length (channels n) \<and> channels n ! i = c \<and> Q c
           \<and> (\<forall>j. 1 \<le> j \<and> j < i \<longrightarrow> \<not> Q (channels n ! j))"
      using i nth [of i] len by (intro exI [of _ "Suc i"]) auto
  qed
  have lobby: "\<forall>l. channels n = [l] \<longrightarrow> find Q r = None"
    by (simp add: r_def)
  show ?thesis
    using none some lobby
    unfolding g Q_def r_def [symmetric] by blast
qed

theorem getChannel_skips_lobby_witness:
  "getChannel lowerAscii loungeExample (js ''#LOUNGE'') = Some (channelNamed ''#Lounge'')
   \<and> getChannel lowerAscii loungeExample (js ''example'') = None
   \<and> getChannel lowerAscii exampleNetwork (js ''Example'') = None"
  using getChannel_skips_lobby [of lowerAscii loungeExample "js ''#LOUNGE''"]
    getChannel_skips_lobby [of lowerAscii loungeExample "js ''example''"]
    getChannel_skips_lobby [of lowerAscii exampleNetwork "js ''Example''"]
  by (simp add: loungeExample_def exampleNetwork_def channelNamed_def lowerAscii_def js_def)


text \<open>
  The claim as stated fails where it names the kinds: the lookup has no test of the kind,
  so with a lobby and a special entry both named Example, and no channel or query at all,
  looking up the network's own name returns the special entry.
\<close>

theorem getChannel_kind_counterexample:
  "getChannel lowerAscii specialExample (js ''Example'') = Some (specialNamed ''Example'')
   \<and> filter isChannelOrQuery (channels specialExample) = []
   \<and> chan.type (specialNamed ''Example'') = SPECIAL"
  by (simp add: getChannel_def specialExample_def specialNamed_def lobbyOf_def
      isChannelOrQuery_def Let_def)


section \<open>Properties of getFilteredClone\<close>

text \<open>Distinct literals are distinct strings.\<close>

lemma of_char_word_inject: "(of_char c :: 16 word) = of_char d \<longleftrightarrow> c = d"
proof
  assume e: "(of_char c :: 16 word) = of_char d"
  have lt: "(of_char x :: nat) < 65536" for x
  proof -
    have "(of_char x :: nat) mod 256 < 256" by simp
    then have "(of_char x :: nat) < 256" by (simp only: of_char_mod_256)
    then show ?thesis by linarith
  qed
  have u: "unat (of_char x :: 16 word) = of_char x" for x
  proof -
    have "unat (of_nat (of_char x) :: 16 word) = of_char x"
      using lt [of x] by (simp add: unat_of_nat)
    then show ?thesis by (simp only: of_nat_of_char)
  qed
  from e have "unat (of_char c :: 16 word) = unat (of_char d :: 16 word)"
    by simp
  then have "(of_char c :: nat) = of_char d"
    by (simp only: u)
  then show "c = d"
    by simp
qed simp

lemma js_inject: "js a = js b \<longleftrightarrow> a = b"
  unfolding js_def
  by (auto simp: list_eq_iff_nth_eq of_char_word_inject)

lemma foldl_copy:
  "foldl (\<lambda>m p. if keep p then m(p \<mapsto> v p) else m) m0 ks k
     = (if k \<in> set ks \<and> keep k then Some (v k) else m0 k)"
  by (induction ks arbitrary: m0) auto

lemma channels_own: "js ''channels'' \<in> set (ownKeys n)"
  by (simp add: ownKeys_def namedKeys_def)

lemma getFilteredClone_at:
  "getFilteredClone (f :: 'a \<Rightarrow> 'b \<Rightarrow> chan \<Rightarrow> 'cc) a b n k
     = (if k = js ''status'' then Some (StatusVal (getNetworkStatus n))
        else if k = js ''channels'' then Some (ChanClones (map (f a b) (channels n)))
        else if k \<in> set (ownKeys n) \<and> fieldsForClient k \<and> k \<noteq> js ''__proto__''
        then Some (getProp n k) else None)"
proof -
  define keep where "keep = (\<lambda>p. p = js ''channels'' \<or> (fieldsForClient p \<and> p \<noteq> js ''__proto__''))"
  define v :: "jsstring \<Rightarrow> 'cc val" where
    "v = (\<lambda>p. if p = js ''channels'' then ChanClones (map (f a b) (channels n)) else getProp n p)"
  have step: "(\<lambda>newNetwork prop.
                 if prop = js ''channels''
                 then assignProp newNetwork prop (ChanClones (map (f a b) (channels n)))
                 else if fieldsForClient prop
                 then assignProp newNetwork prop (getProp n prop)
                 else newNetwork)
      = (\<lambda>m p. if keep p then m(p \<mapsto> v p) else m)"
    by (intro ext) (simp add: keep_def v_def assignProp_def js_inject)
  have "getFilteredClone f a b n k
      = (if k = js ''status'' then Some (StatusVal (getNetworkStatus n))
         else if k \<in> set (ownKeys n) \<and> keep k then Some (v k) else None)"
    unfolding getFilteredClone_def Let_def step
    by (simp add: assignProp_def foldl_copy js_inject)
  then show ?thesis
    using channels_own [of n] by (auto simp: keep_def v_def js_inject)
qed



lemma ownKeys_password: "ownKeys (n\<lparr>password := p\<rparr>) = ownKeys n"
  by (simp add: ownKeys_def)

lemma not_for_client:
  "\<not> fieldsForClient (js ''password'')" "\<not> fieldsForClient (js ''ignoreList'')"
  "\<not> fieldsForClient (js ''irc'')"
  by (simp_all add: fieldsForClient_def objectPrototypeKeys_def js_inject)

lemma whitelist_for_client:
  "fieldsForClient (js ''uuid'')" "fieldsForClient (js ''name'')"
  "fieldsForClient (js ''nick'')" "fieldsForClient (js ''serverOptions'')"
  by (simp_all add: fieldsForClient_def)

lemma named_own:
  "js ''uuid'' \<in> set (ownKeys n)" "js ''name'' \<in> set (ownKeys n)"
  "js ''nick'' \<in> set (ownKeys n)" "js ''serverOptions'' \<in> set (ownKeys n)"
  by (simp_all add: ownKeys_def namedKeys_def)


lemma getProp_password:
  "k \<noteq> js ''password'' \<Longrightarrow> (getProp (n\<lparr>password := p\<rparr>) k :: 'cc val) = getProp n k"
  by (simp add: getProp_def js_inject)

lemma getProp_whitelisted:
  "(getProp n (js ''uuid'') :: 'cc val) = Str (uuid n)"
  "(getProp n (js ''name'') :: 'cc val) = Str (name n)"
  "(getProp n (js ''nick'') :: 'cc val) = Str (nick n)"
  "(getProp n (js ''serverOptions'') :: 'cc val) = ServerOptions (serverOptions n)"
  by (simp_all add: getProp_def js_inject)

lemma prototype_not_named:
  "k \<in> set objectPrototypeKeys \<Longrightarrow> k \<notin> set namedKeys \<and> k \<noteq> js ''highlightRegex''"
  by (auto simp: objectPrototypeKeys_def namedKeys_def js_inject)


lemma status_channels_keys:
  "js ''password'' \<noteq> js ''status''" "js ''password'' \<noteq> js ''channels''"
  "js ''ignoreList'' \<noteq> js ''status''" "js ''ignoreList'' \<noteq> js ''channels''"
  "js ''irc'' \<noteq> js ''status''" "js ''irc'' \<noteq> js ''channels''"
  "js ''uuid'' \<noteq> js ''status''" "js ''uuid'' \<noteq> js ''channels''"
  "js ''name'' \<noteq> js ''status''" "js ''name'' \<noteq> js ''channels''"
  "js ''nick'' \<noteq> js ''status''" "js ''nick'' \<noteq> js ''channels''"
  "js ''serverOptions'' \<noteq> js ''status''" "js ''serverOptions'' \<noteq> js ''channels''"
  "js ''channels'' \<noteq> js ''status''"
  "js ''uuid'' \<noteq> js ''__proto__''" "js ''name'' \<noteq> js ''__proto__''"
  "js ''nick'' \<noteq> js ''__proto__''" "js ''serverOptions'' \<noteq> js ''__proto__''"
  by (simp_all add: js_inject)

text \<open>
  What holds of every network: the filtered clone has no password, no ignore list and no
  connection handle, and it does not depend on the password; it has the four whitelisted
  fields, the channels' clones and the status; and any further key of it is a property
  name of \<open>Object.prototype\<close> that the network owns besides its named properties.
\<close>

lemma getFilteredClone_no_secrets:
  fixes f :: "'a \<Rightarrow> 'b \<Rightarrow> chan \<Rightarrow> 'cc"
  shows "getFilteredClone f a b n (js ''password'') = None"
    and "getFilteredClone f a b n (js ''ignoreList'') = None"
    and "getFilteredClone f a b n (js ''irc'') = None"
    and "getFilteredClone f a b (n\<lparr>password := p\<rparr>) = getFilteredClone f a b n"
proof -
  show "getFilteredClone f a b n (js ''password'') = None"
    "getFilteredClone f a b n (js ''ignoreList'') = None"
    "getFilteredClone f a b n (js ''irc'') = None"
    by (simp_all add: getFilteredClone_at not_for_client status_channels_keys)
  show "getFilteredClone f a b (n\<lparr>password := p\<rparr>) = getFilteredClone f a b n"
  proof (rule ext)
    fix k
    show "getFilteredClone f a b (n\<lparr>password := p\<rparr>) k = getFilteredClone f a b n k"
    proof (cases "k = js ''password''")
      case True
      then show ?thesis
        by (simp add: getFilteredClone_at not_for_client status_channels_keys)
    next
      case False
      then show ?thesis
        by (simp add: getFilteredClone_at ownKeys_password getProp_password getNetworkStatus_def)
    qed
  qed
qed

lemma getFilteredClone_whitelisted:
  fixes f :: "'a \<Rightarrow> 'b \<Rightarrow> chan \<Rightarrow> 'cc"
  shows "getFilteredClone f a b n (js ''uuid'') = Some (Str (uuid n))"
    and "getFilteredClone f a b n (js ''name'') = Some (Str (name n))"
    and "getFilteredClone f a b n (js ''nick'') = Some (Str (nick n))"
    and "getFilteredClone f a b n (js ''serverOptions'') = Some (ServerOptions (serverOptions n))"
    and "getFilteredClone f a b n (js ''channels'') = Some (ChanClones (map (f a b) (channels n)))"
    and "getFilteredClone f a b n (js ''status'') = Some (StatusVal (getNetworkStatus n))"
  by (simp_all add: getFilteredClone_at named_own whitelist_for_client getProp_whitelisted
      status_channels_keys)

lemma getFilteredClone_dom:
  fixes f :: "'a \<Rightarrow> 'b \<Rightarrow> chan \<Rightarrow> 'cc"
  shows "dom (getFilteredClone f a b n)
     \<subseteq> {js ''uuid'', js ''name'', js ''nick'', js ''serverOptions'', js ''channels'',
         js ''status''}
       \<union> (set objectPrototypeKeys \<inter> fst ` set (otherProps n))"
proof
  fix k assume "k \<in> dom (getFilteredClone f a b n)"
  then have k: "k = js ''status'' \<or> k = js ''channels''
      \<or> (k \<in> set (ownKeys n) \<and> fieldsForClient k)"
    unfolding dom_def getFilteredClone_at by (simp split: if_splits)
  have o: "k \<in> fst ` set (otherProps n)"
    if "k \<in> set (ownKeys n)" "k \<in> set objectPrototypeKeys"
    using that prototype_not_named [of k] by (auto simp: ownKeys_def split: if_splits)
  show "k \<in> {js ''uuid'', js ''name'', js ''nick'', js ''serverOptions'', js ''channels'',
         js ''status''}
       \<union> (set objectPrototypeKeys \<inter> fst ` set (otherProps n))"
    using k o unfolding fieldsForClient_def by blast
qed


text \<open>
  C1. The filtered clone is meant to carry the whitelisted fields, the channels and the
  status only. A network that owns a property named like one of \<open>Object.prototype\<close>
  breaks this: with an own \<open>toString\<close> the clone carries \<open>toString\<close> too, since
  \<open>fieldsForClient[prop]\<close> finds the inherited function. The password is absent from that
  clone as from every other, and without the own property the clone has no \<open>toString\<close>.
\<close>

theorem getFilteredClone_prototype_leak:
  "otherProps leakyExample = [(js ''toString'', JString (js ''x''))]
   \<and> getFilteredClone (\<lambda>a b c. chan.name c) (0::nat) (0::nat) leakyExample (js ''toString'')
       = Some (Other (JString (js ''x'')))
   \<and> js ''toString'' \<notin> {js ''uuid'', js ''name'', js ''nick'', js ''serverOptions'',
         js ''channels'', js ''status''}
   \<and> getFilteredClone (\<lambda>a b c. chan.name c) (0::nat) (0::nat) leakyExample (js ''password'')
       = None
   \<and> getFilteredClone (\<lambda>a b c. chan.name c) (0::nat) (0::nat) exampleNetwork (js ''toString'')
       = None"
proof -
  have o: "otherProps leakyExample = [(js ''toString'', JString (js ''x''))]"
    by (simp add: leakyExample_def)
  have own: "js ''toString'' \<in> set (ownKeys leakyExample)"
    by (simp add: ownKeys_def o namedKeys_def js_inject)
  have ffc: "fieldsForClient (js ''toString'')"
    by (simp add: fieldsForClient_def objectPrototypeKeys_def)
  have gp: "(getProp leakyExample (js ''toString'') :: jsstring val) = Other (JString (js ''x''))"
    by (simp add: getProp_def o js_inject)
  have ne: "js ''toString'' \<noteq> js ''status''" "js ''toString'' \<noteq> js ''channels''"
    "js ''toString'' \<noteq> js ''__proto__''"
    by (simp_all add: js_inject)
  have l: "getFilteredClone (\<lambda>a b c. chan.name c) (0::nat) (0::nat) leakyExample (js ''toString'')
       = Some (Other (JString (js ''x'')))"
    by (simp add: getFilteredClone_at own ffc gp ne)
  have nown: "js ''toString'' \<notin> set (ownKeys exampleNetwork)"
    by (simp add: ownKeys_def exampleNetwork_def namedKeys_def js_inject)
  have e: "getFilteredClone (\<lambda>a b c. chan.name c) (0::nat) (0::nat) exampleNetwork (js ''toString'')
       = None"
    by (simp add: getFilteredClone_at nown ne)
  have w: "js ''toString'' \<notin> {js ''uuid'', js ''name'', js ''nick'', js ''serverOptions'',
         js ''channels'', js ''status''}"
    by (simp add: js_inject)
  show ?thesis
    using o l e w getFilteredClone_no_secrets(1) [of "\<lambda>a b c. chan.name c" "0::nat" "0::nat" leakyExample]
    by blast
qed


section \<open>Properties of quit\<close>

lemma sts_refresh_present:
  "sts_get now store h = Some p \<Longrightarrow>
   sts_refreshExpiration now store h = store(h \<mapsto> p\<lparr>expires := now + duration p\<rparr>)"
  by (simp add: sts_refreshExpiration_def)

lemma sts_refresh_absent:
  "sts_get now store h = None \<Longrightarrow> sts_refreshExpiration now store h = store"
  by (simp add: sts_refreshExpiration_def)

text \<open>
  C9. quit does nothing on a network without a connection handle. Otherwise it sends one
  protocol quit with the given message, or with the administrator's leave message when no
  message (or an empty one) is given, and refreshes the policy of the network's host: an
  unexpired policy gets the expiry now plus its duration, so at least that; without an
  unexpired policy the store is unchanged, and the policies of other hosts are untouched.
\<close>

theorem quit_refreshes_policy:
  "(irc n = None \<longrightarrow> quit cfg now quitMessage (n, store) = (n, store))
   \<and> (\<forall>i. irc n = Some i \<longrightarrow>
        fst (quit cfg now quitMessage (n, store))
          = n\<lparr>irc := Some (i\<lparr>calls := calls i
               @ [Quit (case quitMessage of
                          None \<Rightarrow> leaveMessage cfg
                        | Some m \<Rightarrow> if m = [] then leaveMessage cfg else m)]\<rparr>)\<rparr>
        \<and> snd (quit cfg now quitMessage (n, store)) = sts_refreshExpiration now store (host n)
        \<and> (\<forall>p. sts_get now store (host n) = Some p \<longrightarrow>
              (\<exists>p'. snd (quit cfg now quitMessage (n, store)) (host n) = Some p'
                 \<and> expires p' \<ge> now + duration p
                 \<and> p' = p\<lparr>expires := now + duration p\<rparr>))
        \<and> (sts_get now store (host n) = None \<longrightarrow>
              snd (quit cfg now quitMessage (n, store)) = store)
        \<and> (\<forall>h. h \<noteq> host n \<longrightarrow> snd (quit cfg now quitMessage (n, store)) h = store h))"
proof -
  have a: "irc n = None \<longrightarrow> quit cfg now quitMessage (n, store) = (n, store)"
    by (simp add: quit_def)
  have b: "\<forall>i. irc n = Some i \<longrightarrow>
        fst (quit cfg now quitMessage (n, store))
          = n\<lparr>irc := Some (i\<lparr>calls := calls i
               @ [Quit (case quitMessage of
                          None \<Rightarrow> leaveMessage cfg
                        | Some m \<Rightarrow> if m = [] then leaveMessage cfg else m)]\<rparr>)\<rparr>
        \<and> snd (quit cfg now quitMessage (n, store)) = sts_refreshExpiration now store (host n)"
    by (cases quitMessage) (simp_all add: quit_def orElse_def)
  have c: "\<forall>p. sts_get now store (host n) = Some p \<longrightarrow>
      (\<exists>p'. sts_refreshExpiration now store (host n) (host n) = Some p'
                 \<and> expires p' \<ge> now + duration p
                 \<and> p' = p\<lparr>expires := now + duration p\<rparr>)"
    by (simp add: sts_refresh_present)
  have d: "sts_get now store (host n) = None \<longrightarrow>
      sts_refreshExpiration now store (host n) = store"
    by (simp add: sts_refresh_absent)
  have e: "\<forall>h. h \<noteq> host n \<longrightarrow> sts_refreshExpiration now store (host n) h = store h"
    by (cases "sts_get now store (host n)") (simp_all add: sts_refreshExpiration_def)
  show ?thesis
    using a b c d e by simp
qed

theorem quit_refreshes_policy_witness:
  "fst (quit openConfig 4000 None (exampleNetwork\<lparr>irc := Some exampleIrc\<rparr>, examplePolicies))
     = exampleNetwork\<lparr>irc := Some (exampleIrc\<lparr>calls := [Quit (js ''bye'')]\<rparr>)\<rparr>
   \<and> snd (quit openConfig 4000 None (exampleNetwork\<lparr>irc := Some exampleIrc\<rparr>, examplePolicies))
       (js ''irc.example.org'')
     = Some \<lparr>sts_policy.port = 7000, duration = 3600, expires = 7600\<rparr>
   \<and> quit openConfig 4000 (Some (js ''gone'')) (exampleNetwork, examplePolicies)
     = (exampleNetwork, examplePolicies)"
proof -
  have i: "irc (exampleNetwork\<lparr>irc := Some exampleIrc\<rparr>) = Some exampleIrc"
    by simp
  have h: "host (exampleNetwork\<lparr>irc := Some exampleIrc\<rparr>) = js ''irc.example.org''"
    by (simp add: exampleNetwork_def)
  have g: "sts_get 4000 examplePolicies (host (exampleNetwork\<lparr>irc := Some exampleIrc\<rparr>))
      = Some \<lparr>sts_policy.port = 7000, duration = 3600, expires = 5000\<rparr>"
    unfolding h by (simp add: sts_get_def examplePolicies_def)
  have n: "irc exampleNetwork = None"
    by (simp add: exampleNetwork_def)
  note t = quit_refreshes_policy [of "exampleNetwork\<lparr>irc := Some exampleIrc\<rparr>" openConfig 4000
        None examplePolicies]
  from t i have "fst (quit openConfig 4000 None
        (exampleNetwork\<lparr>irc := Some exampleIrc\<rparr>, examplePolicies))
      = exampleNetwork\<lparr>irc := Some exampleIrc\<rparr>\<lparr>irc := Some (exampleIrc\<lparr>calls := calls exampleIrc
               @ [Quit (case None of
                          None \<Rightarrow> leaveMessage openConfig
                        | Some m \<Rightarrow> if m = [] then leaveMessage openConfig else m)]\<rparr>)\<rparr>"
    by blast
  then have f1: "fst (quit openConfig 4000 None
        (exampleNetwork\<lparr>irc := Some exampleIrc\<rparr>, examplePolicies))
      = exampleNetwork\<lparr>irc := Some (exampleIrc\<lparr>calls := [Quit (js ''bye'')]\<rparr>)\<rparr>"
    by (simp add: openConfig_def exampleIrc_def)
  from t i g have "\<exists>p'. snd (quit openConfig 4000 None
        (exampleNetwork\<lparr>irc := Some exampleIrc\<rparr>, examplePolicies))
        (host (exampleNetwork\<lparr>irc := Some exampleIrc\<rparr>)) = Some p'
      \<and> p' = \<lparr>sts_policy.port = 7000, duration = 3600, expires = 5000\<rparr>
              \<lparr>expires := 4000 + duration \<lparr>sts_policy.port = 7000, duration = 3600, expires = 5000\<rparr>\<rparr>"
    by blast
  then have f2: "snd (quit openConfig 4000 None
        (exampleNetwork\<lparr>irc := Some exampleIrc\<rparr>, examplePolicies)) (js ''irc.example.org'')
      = Some \<lparr>sts_policy.port = 7000, duration = 3600, expires = 7600\<rparr>"
    unfolding h by simp
  have f3: "quit openConfig 4000 (Some (js ''gone'')) (exampleNetwork, examplePolicies)
     = (exampleNetwork, examplePolicies)"
    using quit_refreshes_policy [of exampleNetwork openConfig 4000 "Some (js ''gone'')"
        examplePolicies] n
    by blast
  show ?thesis
    using f1 f2 f3 by blast
qed


section \<open>Properties of the client manager\<close>

lemma loadUser_hit:
  "find (\<lambda>u. client.name u = nm) (clients m) = Some c \<Longrightarrow> loadUser nm m = (Some c, m)"
  by (simp add: loadUser_def)

lemma loadUser_miss:
  "find (\<lambda>u. client.name u = nm) (clients m) = None \<Longrightarrow>
   loadUser nm m = (None, m\<lparr>pending := pending m @ [SelectUser nm]\<rparr>)"
  by (simp add: loadUser_def)

text \<open>
  C3. loadUser returns the cached session when there is one. On a miss it issues the
  query and returns what the variable \<open>client\<close> holds then, which is \<open>undefined\<close>: the
  callback that constructs and caches the session runs on a later turn. With an empty
  cache and a stored record for bob, loadUser (and findClient) returns \<open>undefined\<close>; once
  the callback has run, the session is cached and the next loadUser returns it.
\<close>

theorem loadUser_miss_returns_undefined:
  "users bobStored = [(js ''bob'', js ''{}'')]
   \<and> fst (loadUser (js ''bob'') bobStored) = None
   \<and> fst (findClient (js ''bob'') bobStored) = None
   \<and> pending (snd (loadUser (js ''bob'') bobStored)) = [SelectUser (js ''bob'')]
   \<and> clients (runPending (\<lambda>blob. blob) (snd (loadUser (js ''bob'') bobStored)))
       = [\<lparr>client.name = js ''bob'', config = js ''{}''\<rparr>]
   \<and> fst (loadUser (js ''bob'') (runPending (\<lambda>blob. blob) (snd (loadUser (js ''bob'') bobStored))))
       = Some \<lparr>client.name = js ''bob'', config = js ''{}''\<rparr>"
  by (simp add: loadUser_def findClient_def runPending_def bobStored_def)

lemma basename_iff: "basename nm = nm \<longleftrightarrow> 47 \<notin> set nm"
proof
  assume e: "basename nm = nm"
  have "47 \<notin> set (basename nm)"
    unfolding basename_def by (auto dest: set_takeWhileD)
  then show "47 \<notin> set nm"
    using e by simp
next
  assume n: "47 \<notin> set nm"
  then have d: "dropWhile (\<lambda>c. c = 47) (rev nm) = rev nm"
    by (cases "rev nm") auto
  have t: "takeWhile (\<lambda>c. c \<noteq> 47) (rev nm) = rev nm"
    using n by auto
  show "basename nm = nm"
    by (simp add: basename_def d t)
qed

text \<open>
  C8 (amended). addUser rejects a name exactly when it contains a slash
  (\<open>path.basename(name) !== name\<close>), by throwing an error with the message
  "<name> is an invalid username."; nothing is inserted then. For every other name it
  issues the insert and returns true. The insert, once it runs, adds the record when the
  name is new; under an existing name it fails on the uniqueness constraint, leaves the
  table as it is, and the callback logs the error.
\<close>

theorem addUser_outcome:
  "(basename nm = nm \<longleftrightarrow> 47 \<notin> set nm)
   \<and> (47 \<in> set nm \<longrightarrow>
        addUser stringify nm pw lg m = Inl (Error (nm @ js '' is an invalid username.'')))
   \<and> (47 \<notin> set nm \<longrightarrow>
        addUser stringify nm pw lg m
          = Inr (True, m\<lparr>pending := pending m @ [InsertUser nm (stringify pw lg)]\<rparr>))
   \<and> (nm \<in> fst ` set (users m) \<longrightarrow>
        runPending parse (m\<lparr>pending := InsertUser nm blob # qs\<rparr>)
          = m\<lparr>pending := qs, logged := logged m + 1\<rparr>)
   \<and> (nm \<notin> fst ` set (users m) \<longrightarrow>
        runPending parse (m\<lparr>pending := InsertUser nm blob # qs\<rparr>)
          = m\<lparr>pending := qs, users := users m @ [(nm, blob)]\<rparr>)"
proof -
  have a: "47 \<in> set nm \<longrightarrow>
        addUser stringify nm pw lg m = Inl (Error (nm @ js '' is an invalid username.''))"
    by (simp add: addUser_def basename_iff)
  have b: "47 \<notin> set nm \<longrightarrow>
        addUser stringify nm pw lg m
          = Inr (True, m\<lparr>pending := pending m @ [InsertUser nm (stringify pw lg)]\<rparr>)"
    by (simp add: addUser_def basename_iff orElse_def)
  have c: "nm \<in> fst ` set (users m) \<longrightarrow>
        runPending parse (m\<lparr>pending := InsertUser nm blob # qs\<rparr>)
          = m\<lparr>pending := qs, logged := logged m + 1\<rparr>"
    by (simp add: runPending_def)
  have d: "nm \<notin> fst ` set (users m) \<longrightarrow>
        runPending parse (m\<lparr>pending := InsertUser nm blob # qs\<rparr>)
          = m\<lparr>pending := qs, users := users m @ [(nm, blob)]\<rparr>"
    by (simp add: runPending_def)
  show ?thesis
    using a b c d basename_iff [of nm] by blast
qed

theorem addUser_outcome_witness:
  "addUser stringifyExample (js ''carol'') (js ''x'') True bobStored
     = Inr (True, bobStored\<lparr>pending := [InsertUser (js ''carol'') (js ''password=x,log'')]\<rparr>)
   \<and> users (runPending (\<lambda>blob. blob)
        (bobStored\<lparr>pending := [InsertUser (js ''carol'') (js ''password=x,log'')]\<rparr>))
     = [(js ''bob'', js ''{}''), (js ''carol'', js ''password=x,log'')]
   \<and> addUser stringifyExample (js ''a/b'') (js ''x'') True bobStored
     = Inl (Error (js ''a/b is an invalid username.''))"
proof -
  have n1: "47 \<notin> set (js ''carol'')" and n2: "47 \<in> set (js ''a/b'')"
    by (simp_all add: js_def)
  have n3: "js ''carol'' \<notin> fst ` set (users bobStored)"
    by (simp add: bobStored_def js_def)
  have f1: "addUser stringifyExample (js ''carol'') (js ''x'') True bobStored
     = Inr (True, bobStored\<lparr>pending := pending bobStored
          @ [InsertUser (js ''carol'') (stringifyExample (js ''x'') True)]\<rparr>)"
    using addUser_outcome [of "js ''carol''" stringifyExample "js ''x''" True bobStored] n1
    by blast
  have f2: "runPending (\<lambda>blob. blob)
        (bobStored\<lparr>pending := InsertUser (js ''carol'') (js ''password=x,log'') # []\<rparr>)
      = bobStored\<lparr>pending := [], users := users bobStored
          @ [(js ''carol'', js ''password=x,log'')]\<rparr>"
    using addUser_outcome [of "js ''carol''" _ _ _ bobStored "\<lambda>blob. blob"
        "js ''password=x,log''" "[]"] n3
    by blast
  have f3: "addUser stringifyExample (js ''a/b'') (js ''x'') True bobStored
     = Inl (Error (js ''a/b'' @ js '' is an invalid username.''))"
    using addUser_outcome [of "js ''a/b''" stringifyExample "js ''x''" True bobStored] n2
    by blast
  show ?thesis
    using f1 f2 f3 by (simp add: bobStored_def stringifyExample_def js_def)
qed

text \<open>
  The claim as stated fails: for the existing account bob addUser returns true (the
  conflict is only logged, later), and an invalid name is thrown as an error. The name
  \<open>..\<close> is accepted.
\<close>

theorem addUser_conflict_counterexample:
  "js ''bob'' \<in> fst ` set (users bobStored)
   \<and> addUser stringifyExample (js ''bob'') (js ''y'') False bobStored
       = Inr (True, bobStored\<lparr>pending := [InsertUser (js ''bob'') (js ''password=y'')]\<rparr>)
   \<and> runPending (\<lambda>blob. blob)
        (bobStored\<lparr>pending := [InsertUser (js ''bob'') (js ''password=y'')]\<rparr>)
       = bobStored\<lparr>logged := 1\<rparr>
   \<and> addUser stringifyExample (js ''../bob'') (js ''y'') False bobStored
       = Inl (Error (js ''../bob is an invalid username.''))
   \<and> addUser stringifyExample (js ''..'') (js ''y'') False bobStored
       = Inr (True, bobStored\<lparr>pending := [InsertUser (js ''..'') (js ''password=y'')]\<rparr>)"
  by (simp add: addUser_def basename_def runPending_def bobStored_def stringifyExample_def
      orElse_def js_def)


end
